theory Spec2Isabelle
  imports Main "HOL-Library.Sublist" "HOL-Library.Char_ord" "HOL-Library.List_Lexorder"
    "HOL-Library.Option_ord"
begin

text \<open>
  A photo gallery in two versions, application A on DynamoDB and application B on MongoDB,
  both with the photo files in S3, and the utility that migrates the users and the photos
  of A's tables into B's collections. The theory embeds the routes of the two
  applications and the migration as functions on explicit stores, and states what the
  specification of the repository claims about them.
\<close>

section \<open>Strings and dictionaries\<close>

text \<open>
  A Python string is a list of code points; the model has the code points below 256, one
  character each (ASCII and the Latin-1 supplement). On these, white space and case
  mapping are the ones of \<^verbatim>\<open>str.strip\<close> and \<^verbatim>\<open>str.lower\<close>: white space is 9 to 13,
  28 to 32, the next-line character 0x85 and the no-break space 0xA0; the capital letters
  are A to Z and 0xC0 to 0xDE without the multiplication sign 0xD7, each 32 below its small
  letter.
\<close>

definition is_space :: "char \<Rightarrow> bool" where
  "is_space c =
     (let n = (of_char c :: nat)
      in (9 \<le> n \<and> n \<le> 13) \<or> (28 \<le> n \<and> n \<le> 32) \<or> n = 133 \<or> n = 160)"

definition strip :: "string \<Rightarrow> string" where
  "strip s = rev (dropWhile is_space (rev (dropWhile is_space s)))"

definition capital_letters :: "char list" where
  "capital_letters =
     ''ABCDEFGHIJKLMNOPQRSTUVWXYZ'' @
     [CHR 0xC0, CHR 0xC1, CHR 0xC2, CHR 0xC3, CHR 0xC4, CHR 0xC5, CHR 0xC6, CHR 0xC7,
      CHR 0xC8, CHR 0xC9, CHR 0xCA, CHR 0xCB, CHR 0xCC, CHR 0xCD, CHR 0xCE, CHR 0xCF,
      CHR 0xD0, CHR 0xD1, CHR 0xD2, CHR 0xD3, CHR 0xD4, CHR 0xD5, CHR 0xD6, CHR 0xD8,
      CHR 0xD9, CHR 0xDA, CHR 0xDB, CHR 0xDC, CHR 0xDD, CHR 0xDE]"

definition small_letters :: "char list" where
  "small_letters =
     ''abcdefghijklmnopqrstuvwxyz'' @
     [CHR 0xE0, CHR 0xE1, CHR 0xE2, CHR 0xE3, CHR 0xE4, CHR 0xE5, CHR 0xE6, CHR 0xE7,
      CHR 0xE8, CHR 0xE9, CHR 0xEA, CHR 0xEB, CHR 0xEC, CHR 0xED, CHR 0xEE, CHR 0xEF,
      CHR 0xF0, CHR 0xF1, CHR 0xF2, CHR 0xF3, CHR 0xF4, CHR 0xF5, CHR 0xF6, CHR 0xF8,
      CHR 0xF9, CHR 0xFA, CHR 0xFB, CHR 0xFC, CHR 0xFD, CHR 0xFE]"

definition lower_char :: "char \<Rightarrow> char" where
  "lower_char c = (case map_of (zip capital_letters small_letters) c of None \<Rightarrow> c | Some l \<Rightarrow> l)"

definition lower :: "string \<Rightarrow> string" where
  "lower s = map lower_char s"

text \<open>\<^verbatim>\<open>q in s\<close> on strings: does \<open>q\<close> occur in \<open>s\<close> as a contiguous substring.\<close>

fun starts_with :: "string \<Rightarrow> string \<Rightarrow> bool" where
  "starts_with [] s = True"
| "starts_with (c # q) [] = False"
| "starts_with (c # q) (d # s) = (c = d \<and> starts_with q s)"

fun py_in :: "string \<Rightarrow> string \<Rightarrow> bool" where
  "py_in q [] = (q = [])"
| "py_in q (d # s) = (starts_with q (d # s) \<or> py_in q s)"

text \<open>
  Users and photos are Python dicts from attribute names to strings, in both stores. A dict
  is an association list read with \<open>map_of\<close>; \<^verbatim>\<open>d.get(k, default)\<close> and \<^verbatim>\<open>d[k]\<close> are:
\<close>

type_synonym item = "(string \<times> string) list"

datatype error =
    KeyError string
  | NoSuchKey string
  | DuplicateKeyError
  | OperationFailure
  | InvalidOperation
  | ValidationException
  | NotModelled

definition get_default :: "item \<Rightarrow> string \<Rightarrow> string \<Rightarrow> string" where
  "get_default d k dflt = (case map_of d k of None \<Rightarrow> dflt | Some v \<Rightarrow> v)"

definition subscript :: "item \<Rightarrow> string \<Rightarrow> error + string" where
  "subscript d k = (case map_of d k of None \<Rightarrow> Inl (KeyError k) | Some v \<Rightarrow> Inr v)"

section \<open>Helpers of the applications\<close>

definition ALLOWED_EXT :: "string set" where
  "ALLOWED_EXT = {''png'', ''jpg'', ''jpeg'', ''gif'', ''bmp'', ''webp''}"

text \<open>
  \<^verbatim>\<open>name.rsplit(".", 1)\<close>: the name cut at its last dot, or the name alone when it has
  no dot.
\<close>

definition rsplit_dot :: "string \<Rightarrow> string list" where
  "rsplit_dot name =
     (if CHR ''.'' \<in> set name
      then [rev (tl (dropWhile (\<lambda>c. c \<noteq> CHR ''.'') (rev name))),
            rev (takeWhile (\<lambda>c. c \<noteq> CHR ''.'') (rev name))]
      else [name])"

text \<open>
  \<^verbatim>\<open>_ok_file\<close> of application A. The index \<^verbatim>\<open>[1]\<close> is only
  evaluated behind the test for a dot, where the split has two parts.
\<close>

definition ok_file :: "string \<Rightarrow> bool" where
  "ok_file name =
     (CHR ''.'' \<in> set name \<and>
      (case rsplit_dot name of [stem, ext] \<Rightarrow> lower ext \<in> ALLOWED_EXT | _ \<Rightarrow> False))"

section \<open>The stores\<close>

text \<open>
  The stores are modelled by what they hold and by the calls the programs make. The limits
  of the services on the size of keys, items, documents and pages beyond the paging of a
  scan, and their transient failures, are outside the model: a call of the model is one
  that the service accepts.
\<close>

subsection \<open>A DynamoDB table\<close>

text \<open>
  A table holds its items in scan order, under the key attribute of its key schema
  (\<^verbatim>\<open>username\<close> for users, \<^verbatim>\<open>photo_id\<close> for photos). One \<^verbatim>\<open>scan\<close> call
  evaluates at most one page of items, applies the filter to that page, and
  returns \<^verbatim>\<open>LastEvaluatedKey\<close> when items remain behind the page; the program only tests
  that token and hands it back, so the model takes the number of items evaluated so far
  for it. \<open>page_limit\<close> stands for the size cap of a page and counts as 1 when it is 0.
  The scan follows the service's hash of the keys, not the order of the writes: where a
  new key falls among the items is the service's choice, which the table carries as
  \<open>slot\<close>, from the key and the items held to an index.
\<close>

record dynamo_table =
  key_attr :: string
  rows :: "item list"
  page_limit :: nat
  slot :: "string \<Rightarrow> item list \<Rightarrow> nat"

datatype token = LastKey nat

record scan_response =
  Items :: "item list"
  LastEvaluatedKey :: "token option"

definition page_len :: "dynamo_table \<Rightarrow> nat" where
  "page_len t = max 1 (page_limit t)"

definition scan_offset :: "token option \<Rightarrow> nat" where
  "scan_offset start = (case start of None \<Rightarrow> 0 | Some (LastKey n) \<Rightarrow> n)"

definition scan :: "dynamo_table \<Rightarrow> (item \<Rightarrow> bool) \<Rightarrow> token option \<Rightarrow> scan_response" where
  "scan t flt start =
     \<lparr>Items = filter flt (take (page_len t) (drop (scan_offset start) (rows t))),
      LastEvaluatedKey =
        (if scan_offset start + page_len t < length (rows t)
         then Some (LastKey (scan_offset start + page_len t)) else None)\<rparr>"

text \<open>\<^verbatim>\<open>Attr(a).eq(v)\<close>: the item has attribute \<open>a\<close> and its value is \<open>v\<close>.\<close>

definition attr_eq :: "string \<Rightarrow> string \<Rightarrow> item \<Rightarrow> bool" where
  "attr_eq a v d = (map_of d a = Some v)"

definition get_item :: "dynamo_table \<Rightarrow> string \<Rightarrow> item option" where
  "get_item t k = find (attr_eq (key_attr t) k) (rows t)"

fun replace_first :: "(item \<Rightarrow> bool) \<Rightarrow> item \<Rightarrow> item list \<Rightarrow> item list" where
  "replace_first P u [] = []"
| "replace_first P u (d # ds) = (if P d then u # ds else d # replace_first P u ds)"

text \<open>
  \<^verbatim>\<open>put_item\<close> writes the item under its key: over the item that has the key already,
  or as a new item at the place the service gives the key. The service rejects an item
  without the key attribute.
\<close>

definition put_item :: "dynamo_table \<Rightarrow> item \<Rightarrow> error + dynamo_table" where
  "put_item t it =
     (case map_of it (key_attr t) of
        None \<Rightarrow> Inl ValidationException
      | Some k \<Rightarrow>
          (if get_item t k = None
           then Inr (t\<lparr>rows := take (slot t k (rows t)) (rows t) @ it # drop (slot t k (rows t)) (rows t)\<rparr>)
           else Inr (t\<lparr>rows := replace_first (attr_eq (key_attr t) k) it (rows t)\<rparr>)))"

definition delete_item :: "dynamo_table \<Rightarrow> string \<Rightarrow> dynamo_table" where
  "delete_item t k = t\<lparr>rows := filter (\<lambda>r. \<not> attr_eq (key_attr t) k r) (rows t)\<rparr>"

subsection \<open>A MongoDB collection\<close>

text \<open>
  A collection holds its documents in natural order. Documents are compared on the fields
  the program writes; the identifier the server assigns is not part of the model. A filter
  is a list of field equalities.
\<close>

type_synonym collection = "item list"

definition matches :: "(string \<times> string) list \<Rightarrow> item \<Rightarrow> bool" where
  "matches flt d = list_all (\<lambda>(k, v). map_of d k = Some v) flt"

definition find_one :: "collection \<Rightarrow> (string \<times> string) list \<Rightarrow> item option" where
  "find_one col flt = find (matches flt) col"

text \<open>
  \<^verbatim>\<open>insert_one\<close> into a collection with a unique index on \<open>uniq\<close>, as application B
  declares on \<^verbatim>\<open>username\<close> and \<^verbatim>\<open>photo_id\<close>.
\<close>

definition insert_one :: "string \<Rightarrow> collection \<Rightarrow> item \<Rightarrow> error + collection" where
  "insert_one uniq col d =
     (if list_ex (\<lambda>e. map_of e uniq = map_of d uniq) col then Inl DuplicateKeyError
      else Inr (col @ [d]))"

fun remove_first :: "(item \<Rightarrow> bool) \<Rightarrow> item list \<Rightarrow> item list" where
  "remove_first P [] = []"
| "remove_first P (d # ds) = (if P d then ds else d # remove_first P ds)"

definition delete_one :: "collection \<Rightarrow> (string \<times> string) list \<Rightarrow> collection" where
  "delete_one col flt = remove_first (matches flt) col"

text \<open>
  \<^verbatim>\<open>ReplaceOne(filter, replacement, upsert)\<close> and the result of \<^verbatim>\<open>bulk_write\<close>. The
  operations run in order. A replacement overwrites the first document the filter matches.
  The server counts a matched replacement as modified unless it finds the replacement equal
  to the stored document; the stored document carries the identifier the server gave it,
  which a replacement built from a table item lacks, so every matched replacement of the
  migration is counted as matched and as modified. With no match and \<open>upsert\<close> set, the
  replacement is inserted. \<^verbatim>\<open>bulk_write\<close> refuses an empty list of operations.
\<close>

datatype write_op = ReplaceOne "(string \<times> string) list" item bool

record bulk_write_result =
  upserted_count :: nat
  matched_count :: nat
  modified_count :: nat

definition add_result :: "bulk_write_result \<Rightarrow> bulk_write_result \<Rightarrow> bulk_write_result" where
  "add_result a b =
     \<lparr>upserted_count = upserted_count a + upserted_count b,
      matched_count = matched_count a + matched_count b,
      modified_count = modified_count a + modified_count b\<rparr>"

fun apply_op :: "collection \<Rightarrow> write_op \<Rightarrow> collection \<times> bulk_write_result" where
  "apply_op col (ReplaceOne flt u upsert) =
     (case find (matches flt) col of
        Some d \<Rightarrow>
          (replace_first (matches flt) u col,
           \<lparr>upserted_count = 0, matched_count = 1, modified_count = 1\<rparr>)
      | None \<Rightarrow>
          (if upsert
           then (col @ [u], \<lparr>upserted_count = 1, matched_count = 0, modified_count = 0\<rparr>)
           else (col, \<lparr>upserted_count = 0, matched_count = 0, modified_count = 0\<rparr>)))"

declare apply_op.simps [simp del]

fun run_ops :: "collection \<Rightarrow> write_op list \<Rightarrow> collection \<times> bulk_write_result" where
  "run_ops col [] = (col, \<lparr>upserted_count = 0, matched_count = 0, modified_count = 0\<rparr>)"
| "run_ops col (w # ws) =
     (case apply_op col w of
        (col1, r1) \<Rightarrow> (case run_ops col1 ws of (col2, r2) \<Rightarrow> (col2, add_result r1 r2)))"

definition bulk_write :: "collection \<Rightarrow> write_op list \<Rightarrow> error + collection \<times> bulk_write_result" where
  "bulk_write col ops = (if ops = [] then Inl InvalidOperation else Inr (run_ops col ops))"

section \<open>The migration utility\<close>

text \<open>
  \<^verbatim>\<open>scan_all\<close>: the loop calls \<^verbatim>\<open>scan\<close> with the token of the previous page until a
  page comes without one. It ends because every page moves the offset forward.
\<close>

function scan_all_loop :: "dynamo_table \<Rightarrow> item list \<Rightarrow> token option \<Rightarrow> item list" where
  "scan_all_loop t items last_key =
     (case LastEvaluatedKey (scan t (\<lambda>_. True) last_key) of
        None \<Rightarrow> items @ Items (scan t (\<lambda>_. True) last_key)
      | Some k \<Rightarrow> scan_all_loop t (items @ Items (scan t (\<lambda>_. True) last_key)) (Some k))"
  by pat_completeness auto
termination
  by (relation "measure (\<lambda>(t, items, last_key). length (rows t) - scan_offset last_key)")
    (auto simp: scan_def scan_offset_def page_len_def split: if_splits option.splits token.splits)

declare scan_all_loop.simps [simp del]

definition scan_all :: "dynamo_table \<Rightarrow> item list" where
  "scan_all t = scan_all_loop t [] None"

text \<open>
  The list comprehension that builds the operations; \<^verbatim>\<open>u[key]\<close> raises on an item
  without the key.
\<close>

fun replace_ops :: "string \<Rightarrow> item list \<Rightarrow> error + write_op list" where
  "replace_ops key [] = Inr []"
| "replace_ops key (u # us) =
     (case subscript u key of
        Inl e \<Rightarrow> Inl e
      | Inr v \<Rightarrow>
          (case replace_ops key us of
             Inl e \<Rightarrow> Inl e
           | Inr ops \<Rightarrow> Inr (ReplaceOne [(key, v)] u True # ops)))"

text \<open>
  What a migration step prints: the number of items found and, unless the scan was empty,
  the upserted and the modified count of the bulk write.
\<close>

record migrate_report =
  found :: nat
  counts :: "(nat \<times> nat) option"

definition migrate_users :: "dynamo_table \<Rightarrow> collection \<Rightarrow> error + collection \<times> migrate_report" where
  "migrate_users src dst =
     (let users = scan_all src in
      if users = [] then Inr (dst, \<lparr>found = 0, counts = None\<rparr>)
      else
        (case replace_ops ''username'' users of
           Inl e \<Rightarrow> Inl e
         | Inr ops \<Rightarrow>
             (case bulk_write dst ops of
                Inl e \<Rightarrow> Inl e
              | Inr (dst', result) \<Rightarrow>
                  Inr (dst', \<lparr>found = length users,
                             counts = Some (upserted_count result, modified_count result)\<rparr>))))"

definition migrate_photos :: "dynamo_table \<Rightarrow> collection \<Rightarrow> error + collection \<times> migrate_report" where
  "migrate_photos src dst =
     (let photos = scan_all src in
      if photos = [] then Inr (dst, \<lparr>found = 0, counts = None\<rparr>)
      else
        (case replace_ops ''photo_id'' photos of
           Inl e \<Rightarrow> Inl e
         | Inr ops \<Rightarrow>
             (case bulk_write dst ops of
                Inl e \<Rightarrow> Inl e
              | Inr (dst', result) \<Rightarrow>
                  Inr (dst', \<lparr>found = length photos,
                             counts = Some (upserted_count result, modified_count result)\<rparr>))))"

text \<open>
  \<^verbatim>\<open>main\<close>: users, then photos. The source is the pair of tables, the destination the
  pair of collections; an error in the second step leaves the first step's writes.
\<close>

definition main ::
  "dynamo_table \<times> dynamo_table \<Rightarrow> collection \<times> collection \<Rightarrow>
   (error + migrate_report \<times> migrate_report) \<times> (collection \<times> collection)" where
  "main src dst =
     (case migrate_users (fst src) (fst dst) of
        Inl e \<Rightarrow> (Inl e, dst)
      | Inr (users', r1) \<Rightarrow>
          (case migrate_photos (snd src) (snd dst) of
             Inl e \<Rightarrow> (Inl e, (users', snd dst))
           | Inr (photos', r2) \<Rightarrow> (Inr (r1, r2), (users', photos'))))"

text \<open>
  The key schema of a table: every item has the key attribute, and no two items share its
  value.
\<close>

definition key_schema :: "string \<Rightarrow> dynamo_table \<Rightarrow> bool" where
  "key_schema key t =
     (key_attr t = key \<and>
      list_all (\<lambda>r. map_of r key \<noteq> None) (rows t) \<and>
      distinct (map (\<lambda>r. map_of r key) (rows t)))"

text \<open>
  The operations the comprehension builds when every item has the key, and the two counts
  the report is compared with: the scanned items whose key the destination lacks, and
  those whose key it has.
\<close>

definition keyed_ops :: "string \<Rightarrow> item list \<Rightarrow> write_op list" where
  "keyed_ops key us = map (\<lambda>u. ReplaceOne [(key, get_default u key [])] u True) us"

definition same_key :: "string \<Rightarrow> item \<Rightarrow> item \<Rightarrow> bool" where
  "same_key key u d = (map_of d key = map_of u key)"

definition newly_inserted :: "string \<Rightarrow> collection \<Rightarrow> item list \<Rightarrow> nat" where
  "newly_inserted key dst us = length (filter (\<lambda>u. find (same_key key u) dst = None) us)"

definition previously_existing :: "string \<Rightarrow> collection \<Rightarrow> item list \<Rightarrow> nat" where
  "previously_existing key dst us = length (filter (\<lambda>u. find (same_key key u) dst \<noteq> None) us)"

section \<open>The two applications\<close>

subsection \<open>Shared state, requests and responses\<close>

text \<open>
  Both applications keep the photo files in the same S3 bucket. The state records the
  bucket, the calls made to the bucket and to the metadata store, in order, and a counter
  that numbers the draws from the clock and the random source of identifiers.
\<close>

datatype event =
    S3Put string
  | S3Get string
  | S3Delete string
  | DbGet string string
  | DbScan string
  | DbPut string string
  | DbDelete string string

record store =
  bucket :: "string \<rightharpoonup> string"
  trace :: "event list"
  tick :: nat

record stateA = store +
  users_tbl :: dynamo_table
  photos_tbl :: dynamo_table

record stateB = store +
  users_col :: collection
  photos_col :: collection

text \<open>
  What the applications take from their libraries and from the system: the password hash
  \<^verbatim>\<open>_pw\<close>, \<^verbatim>\<open>secure_filename\<close>, \<^verbatim>\<open>uuid.uuid4\<close> and the clock, the last two as
  functions of the number of the draw.
\<close>

record env =
  pw :: "string \<Rightarrow> string"
  secure_filename :: "string \<Rightarrow> string"
  uuid4 :: "nat \<Rightarrow> string"
  utcnow :: "nat \<Rightarrow> string"

record file_storage =
  filename :: string
  stream :: string
  content_type :: string

record register_form =
  form_username :: string
  form_password :: string
  form_email :: "string option"

datatype http_method = GET | POST

text \<open>
  The flashed messages, in the order of the source: "Username and password are required.",
  "Username already taken.", "Account created", "No files selected.",
  "Uploaded n photo(s).", "Photo not found.", "Photo deleted.".
\<close>

datatype message =
    RequiredFields
  | UsernameTaken
  | AccountCreated
  | NoFilesSelected
  | Uploaded nat
  | PhotoNotFound
  | PhotoDeleted

text \<open>
  A response redirects to an endpoint after flashing a message, renders a template with
  photos and the user name or the query, renders a form, or sends a file under a name.
\<close>

datatype response =
    Redirect string "message option"
  | Render string "item list" string
  | RenderForm string
  | SendFile string string

definition photos_of :: "error + response \<Rightarrow> item list" where
  "photos_of r = (case r of Inr (Render template photos arg) \<Rightarrow> photos | _ \<Rightarrow> [])"

definition log :: "event \<Rightarrow> 'a store_scheme \<Rightarrow> 'a store_scheme" where
  "log e s = s\<lparr>trace := trace s @ [e]\<rparr>"

definition upload_fileobj :: "string \<Rightarrow> string \<Rightarrow> 'a store_scheme \<Rightarrow> 'a store_scheme" where
  "upload_fileobj key body s = log (S3Put key) (s\<lparr>bucket := (bucket s)(key \<mapsto> body)\<rparr>)"

definition delete_object :: "string \<Rightarrow> 'a store_scheme \<Rightarrow> 'a store_scheme" where
  "delete_object key s = log (S3Delete key) (s\<lparr>bucket := (bucket s)(key := None)\<rparr>)"

definition get_object :: "string \<Rightarrow> 'a store_scheme \<Rightarrow> (error + string) \<times> 'a store_scheme" where
  "get_object key s =
     (case bucket s key of
        None \<Rightarrow> (Inl (NoSuchKey key), log (S3Get key) s)
      | Some body \<Rightarrow> (Inr body, log (S3Get key) s))"

definition photo_item ::
  "string \<Rightarrow> string \<Rightarrow> string \<Rightarrow> string \<Rightarrow> string \<Rightarrow> string \<Rightarrow> string \<Rightarrow> item" where
  "photo_item pid username safe key tags desc now =
     [(''photo_id'', pid), (''username'', username), (''filename'', safe), (''s3_key'', key),
      (''tags'', tags), (''description'', desc), (''uploaded_at'', now)]"

definition user_item :: "string \<Rightarrow> string \<Rightarrow> string \<Rightarrow> string \<Rightarrow> item" where
  "user_item username hash email now =
     [(''username'', username), (''password'', hash), (''email'', email), (''created_at'', now)]"

definition form_get :: "string option \<Rightarrow> string" where
  "form_get v = (case v of None \<Rightarrow> [] | Some x \<Rightarrow> x)"

text \<open>
  \<^verbatim>\<open>xs.sort(key=f, reverse=True)\<close>: descending by key, items of equal key in their
  original order.
\<close>

definition sort_reverse :: "('a \<Rightarrow> 'k::linorder) \<Rightarrow> 'a list \<Rightarrow> 'a list" where
  "sort_reverse f xs = rev (sort_key f (rev xs))"

subsection \<open>Application A: DynamoDB\<close>

text \<open>
  The tables are the ones \<^verbatim>\<open>_init_tables\<close> creates: users under \<^verbatim>\<open>username\<close>,
  photos under \<^verbatim>\<open>photo_id\<close>.
\<close>

definition tables_ok :: "stateA \<Rightarrow> bool" where
  "tables_ok s = (key_attr (users_tbl s) = ''username'' \<and> key_attr (photos_tbl s) = ''photo_id'')"

definition register_A ::
  "env \<Rightarrow> http_method \<Rightarrow> register_form \<Rightarrow> stateA \<Rightarrow> (error + response) \<times> stateA" where
  "register_A env meth form s =
     (if meth = POST then
        (let username = strip (form_username form);
             password = strip (form_password form);
             email = strip (form_get (form_email form))
         in if username = [] \<or> password = []
            then (Inr (Redirect ''register'' (Some RequiredFields)), s)
            else if get_item (users_tbl s) username \<noteq> None
            then (Inr (Redirect ''register'' (Some UsernameTaken)),
                  log (DbGet ''users'' username) s)
            else
              (case put_item (users_tbl s)
                      (user_item username (pw env password) email (utcnow env (tick s))) of
                 Inl e \<Rightarrow> (Inl e, log (DbGet ''users'' username) s)
               | Inr t \<Rightarrow>
                   (Inr (Redirect ''login'' (Some AccountCreated)),
                    log (DbPut ''users'' username)
                      (log (DbGet ''users'' username) (s\<lparr>tick := tick s + 1, users_tbl := t\<rparr>)))))
      else (Inr (RenderForm ''register.html''), s))"

definition gallery_A :: "string option \<Rightarrow> stateA \<Rightarrow> (error + response) \<times> stateA" where
  "gallery_A session s =
     (case session of
        None \<Rightarrow> (Inr (Redirect ''login'' None), s)
      | Some username \<Rightarrow>
          (let items = Items (scan (photos_tbl s) (attr_eq ''username'' username) None);
               sorted_items = sort_reverse (\<lambda>p. get_default p ''uploaded_at'' []) items
           in (Inr (Render ''gallery.html'' sorted_items username), log (DbScan ''photos'') s)))"

definition search_A :: "string option \<Rightarrow> string option \<Rightarrow> stateA \<Rightarrow> (error + response) \<times> stateA" where
  "search_A session arg s =
     (case session of
        None \<Rightarrow> (Inr (Redirect ''login'' None), s)
      | Some username \<Rightarrow>
          (let q = lower (strip (form_get arg))
           in if q = [] then (Inr (Render ''search.html'' [] []), s)
              else
                (let items = Items (scan (photos_tbl s) (attr_eq ''username'' username) None);
                     results =
                       filter (\<lambda>p. py_in q (lower (get_default p ''filename'' [])) \<or>
                                   py_in q (lower (get_default p ''tags'' [])) \<or>
                                   py_in q (lower (get_default p ''description'' []))) items
                 in (Inr (Render ''search.html'' results q), log (DbScan ''photos'') s))))"

definition download_A :: "string option \<Rightarrow> string \<Rightarrow> stateA \<Rightarrow> (error + response) \<times> stateA" where
  "download_A session photo_id s =
     (case session of
        None \<Rightarrow> (Inr (Redirect ''login'' None), s)
      | Some username \<Rightarrow>
          (let s1 = log (DbGet ''photos'' photo_id) s in
           case get_item (photos_tbl s) photo_id of
             None \<Rightarrow> (Inr (Redirect ''gallery'' (Some PhotoNotFound)), s1)
           | Some item \<Rightarrow>
               (case subscript item ''username'' of
                  Inl e \<Rightarrow> (Inl e, s1)
                | Inr owner \<Rightarrow>
                    (if owner \<noteq> username then (Inr (Redirect ''gallery'' (Some PhotoNotFound)), s1)
                     else
                       (case subscript item ''s3_key'' of
                          Inl e \<Rightarrow> (Inl e, s1)
                        | Inr key \<Rightarrow>
                            (case get_object key s1 of
                               (Inl e, s2) \<Rightarrow> (Inl e, s2)
                             | (Inr body, s2) \<Rightarrow>
                                 (case subscript item ''filename'' of
                                    Inl e \<Rightarrow> (Inl e, s2)
                                  | Inr name \<Rightarrow> (Inr (SendFile body name), s2))))))))"

definition delete_A :: "string option \<Rightarrow> string \<Rightarrow> stateA \<Rightarrow> (error + response) \<times> stateA" where
  "delete_A session photo_id s =
     (case session of
        None \<Rightarrow> (Inr (Redirect ''login'' None), s)
      | Some username \<Rightarrow>
          (let s1 = log (DbGet ''photos'' photo_id) s in
           case get_item (photos_tbl s) photo_id of
             None \<Rightarrow> (Inr (Redirect ''gallery'' (Some PhotoNotFound)), s1)
           | Some item \<Rightarrow>
               (case subscript item ''username'' of
                  Inl e \<Rightarrow> (Inl e, s1)
                | Inr owner \<Rightarrow>
                    (if owner \<noteq> username then (Inr (Redirect ''gallery'' (Some PhotoNotFound)), s1)
                     else
                       (case subscript item ''s3_key'' of
                          Inl e \<Rightarrow> (Inl e, s1)
                        | Inr key \<Rightarrow>
                            (let s2 = delete_object key s1;
                                 s3 = log (DbDelete ''photos'' photo_id)
                                        (s2\<lparr>photos_tbl := delete_item (photos_tbl s2) photo_id\<rparr>)
                             in (Inr (Redirect ''gallery'' (Some PhotoDeleted)), s3)))))))"

text \<open>
  The loop of \<^verbatim>\<open>upload\<close> over the submitted files. A \<^verbatim>\<open>FileStorage\<close> is true when
  its file name is not empty.
\<close>

fun upload_files_A ::
  "env \<Rightarrow> string \<Rightarrow> string \<Rightarrow> string \<Rightarrow> file_storage list \<Rightarrow> nat \<Rightarrow> stateA \<Rightarrow> (error + nat) \<times> stateA" where
  "upload_files_A env username tags desc [] count s = (Inr count, s)"
| "upload_files_A env username tags desc (f # fs) count s =
     (if filename f \<noteq> [] \<and> ok_file (filename f) then
        (let safe = secure_filename env (filename f);
             pid = uuid4 env (tick s);
             key = ''photos/'' @ username @ ''/'' @ pid @ ''_'' @ safe;
             s1 = upload_fileobj key (stream f) s
         in case put_item (photos_tbl s1)
                   (photo_item pid username safe key tags desc (utcnow env (tick s))) of
              Inl e \<Rightarrow> (Inl e, s1)
            | Inr t \<Rightarrow>
                upload_files_A env username tags desc fs (count + 1)
                  (log (DbPut ''photos'' pid) (s1\<lparr>tick := tick s + 1, photos_tbl := t\<rparr>)))
      else upload_files_A env username tags desc fs count s)"

definition upload_A ::
  "env \<Rightarrow> http_method \<Rightarrow> string option \<Rightarrow> file_storage list \<Rightarrow> string option \<Rightarrow> string option \<Rightarrow>
   stateA \<Rightarrow> (error + response) \<times> stateA" where
  "upload_A env meth session files tags_arg desc_arg s =
     (case session of
        None \<Rightarrow> (Inr (Redirect ''login'' None), s)
      | Some username \<Rightarrow>
          (if meth = POST then
             (case files of
                [] \<Rightarrow> (Inr (Redirect ''upload'' (Some NoFilesSelected)), s)
              | f0 # rest \<Rightarrow>
                  (if filename f0 = [] then (Inr (Redirect ''upload'' (Some NoFilesSelected)), s)
                   else
                     (case upload_files_A env username (strip (form_get tags_arg))
                             (strip (form_get desc_arg)) files 0 s of
                        (Inl e, s') \<Rightarrow> (Inl e, s')
                      | (Inr count, s') \<Rightarrow> (Inr (Redirect ''gallery'' (Some (Uploaded count))), s'))))
           else (Inr (RenderForm ''upload.html''), s)))"

subsection \<open>Application B: MongoDB\<close>

text \<open>
  \<^verbatim>\<open>find(...).sort(field, -1)\<close>: descending by the field, a document without the field
  after those that have it. The server leaves the order among documents of equal key open;
  the model keeps their natural order.
\<close>

definition sort_descending :: "string \<Rightarrow> item list \<Rightarrow> item list" where
  "sort_descending field docs = rev (sort_key (\<lambda>d. map_of d field) (rev docs))"

text \<open>
  The search filter hands the query to the server as a regular expression with option
  \<^verbatim>\<open>i\<close>. The engine is a parameter of the model: \<open>regex q\<close> is the answer of the
  engine to the pattern \<open>q\<close>, either the test that the compiled pattern performs on a
  string, or that the server rejects the pattern. A description of the engine that covers
  some patterns only answers \<open>Unmodelled\<close> for the others; the search has no result in
  the model then. A document without the field does not match.
\<close>

datatype regex_result = Matcher "string \<Rightarrow> bool" | Rejected | Unmodelled

type_synonym regex_engine = "string \<Rightarrow> regex_result"

definition regex_field :: "(string \<Rightarrow> bool) \<Rightarrow> item \<Rightarrow> string \<Rightarrow> bool" where
  "regex_field m d field = (case map_of d field of None \<Rightarrow> False | Some v \<Rightarrow> m v)"

text \<open>Application B has its own copy of the extensions and of \<^verbatim>\<open>_ok_file\<close>.\<close>

definition ALLOWED_EXT_B :: "string set" where
  "ALLOWED_EXT_B = {''png'', ''jpg'', ''jpeg'', ''gif'', ''bmp'', ''webp''}"

definition ok_file_B :: "string \<Rightarrow> bool" where
  "ok_file_B name =
     (CHR ''.'' \<in> set name \<and>
      (case rsplit_dot name of [stem, ext] \<Rightarrow> lower ext \<in> ALLOWED_EXT_B | _ \<Rightarrow> False))"

definition register_B ::
  "env \<Rightarrow> http_method \<Rightarrow> register_form \<Rightarrow> stateB \<Rightarrow> (error + response) \<times> stateB" where
  "register_B env meth form s =
     (if meth = POST then
        (let username = strip (form_username form);
             password = strip (form_password form);
             email = strip (form_get (form_email form))
         in if username = [] \<or> password = []
            then (Inr (Redirect ''register'' (Some RequiredFields)), s)
            else if find_one (users_col s) [(''username'', username)] \<noteq> None
            then (Inr (Redirect ''register'' (Some UsernameTaken)),
                  log (DbGet ''users'' username) s)
            else
              (case insert_one ''username'' (users_col s)
                      (user_item username (pw env password) email (utcnow env (tick s))) of
                 Inl e \<Rightarrow> (Inl e, log (DbGet ''users'' username) s)
               | Inr c \<Rightarrow>
                   (Inr (Redirect ''login'' (Some AccountCreated)),
                    log (DbPut ''users'' username)
                      (log (DbGet ''users'' username) (s\<lparr>tick := tick s + 1, users_col := c\<rparr>)))))
      else (Inr (RenderForm ''register.html''), s))"

definition gallery_B :: "string option \<Rightarrow> stateB \<Rightarrow> (error + response) \<times> stateB" where
  "gallery_B session s =
     (case session of
        None \<Rightarrow> (Inr (Redirect ''login'' None), s)
      | Some username \<Rightarrow>
          (let photos = sort_descending ''uploaded_at''
                          (filter (matches [(''username'', username)]) (photos_col s))
           in (Inr (Render ''gallery.html'' photos username), log (DbScan ''photos'') s)))"

definition search_B ::
  "regex_engine \<Rightarrow> string option \<Rightarrow> string option \<Rightarrow> stateB \<Rightarrow> (error + response) \<times> stateB" where
  "search_B regex session arg s =
     (case session of
        None \<Rightarrow> (Inr (Redirect ''login'' None), s)
      | Some username \<Rightarrow>
          (let q = strip (form_get arg)
           in if q = [] then (Inr (Render ''search.html'' [] []), s)
              else
                (case regex q of
                   Rejected \<Rightarrow> (Inl OperationFailure, log (DbScan ''photos'') s)
                 | Unmodelled \<Rightarrow> (Inl NotModelled, s)
                 | Matcher rgx \<Rightarrow>
                     (let results =
                            filter (\<lambda>d. matches [(''username'', username)] d \<and>
                                        (regex_field rgx d ''filename'' \<or>
                                         regex_field rgx d ''tags'' \<or>
                                         regex_field rgx d ''description'')) (photos_col s)
                      in (Inr (Render ''search.html'' results q), log (DbScan ''photos'') s)))))"

definition download_B :: "string option \<Rightarrow> string \<Rightarrow> stateB \<Rightarrow> (error + response) \<times> stateB" where
  "download_B session photo_id s =
     (case session of
        None \<Rightarrow> (Inr (Redirect ''login'' None), s)
      | Some username \<Rightarrow>
          (let s1 = log (DbGet ''photos'' photo_id) s in
           case find_one (photos_col s) [(''photo_id'', photo_id), (''username'', username)] of
             None \<Rightarrow> (Inr (Redirect ''gallery'' (Some PhotoNotFound)), s1)
           | Some item \<Rightarrow>
               (case subscript item ''s3_key'' of
                  Inl e \<Rightarrow> (Inl e, s1)
                | Inr key \<Rightarrow>
                    (case get_object key s1 of
                       (Inl e, s2) \<Rightarrow> (Inl e, s2)
                     | (Inr body, s2) \<Rightarrow>
                         (case subscript item ''filename'' of
                            Inl e \<Rightarrow> (Inl e, s2)
                          | Inr name \<Rightarrow> (Inr (SendFile body name), s2))))))"

definition delete_B :: "string option \<Rightarrow> string \<Rightarrow> stateB \<Rightarrow> (error + response) \<times> stateB" where
  "delete_B session photo_id s =
     (case session of
        None \<Rightarrow> (Inr (Redirect ''login'' None), s)
      | Some username \<Rightarrow>
          (let s1 = log (DbGet ''photos'' photo_id) s in
           case find_one (photos_col s) [(''photo_id'', photo_id), (''username'', username)] of
             None \<Rightarrow> (Inr (Redirect ''gallery'' (Some PhotoNotFound)), s1)
           | Some item \<Rightarrow>
               (case subscript item ''s3_key'' of
                  Inl e \<Rightarrow> (Inl e, s1)
                | Inr key \<Rightarrow>
                    (let s2 = delete_object key s1;
                         s3 = log (DbDelete ''photos'' photo_id)
                                (s2\<lparr>photos_col := delete_one (photos_col s2) [(''photo_id'', photo_id)]\<rparr>)
                     in (Inr (Redirect ''gallery'' (Some PhotoDeleted)), s3)))))"

fun upload_files_B ::
  "env \<Rightarrow> string \<Rightarrow> string \<Rightarrow> string \<Rightarrow> file_storage list \<Rightarrow> nat \<Rightarrow> stateB \<Rightarrow> (error + nat) \<times> stateB" where
  "upload_files_B env username tags desc [] count s = (Inr count, s)"
| "upload_files_B env username tags desc (f # fs) count s =
     (if filename f \<noteq> [] \<and> ok_file_B (filename f) then
        (let safe = secure_filename env (filename f);
             pid = uuid4 env (tick s);
             key = ''photos/'' @ username @ ''/'' @ pid @ ''_'' @ safe;
             s1 = upload_fileobj key (stream f) s
         in case insert_one ''photo_id'' (photos_col s1)
                   (photo_item pid username safe key tags desc (utcnow env (tick s))) of
              Inl e \<Rightarrow> (Inl e, s1)
            | Inr c \<Rightarrow>
                upload_files_B env username tags desc fs (count + 1)
                  (log (DbPut ''photos'' pid) (s1\<lparr>tick := tick s + 1, photos_col := c\<rparr>)))
      else upload_files_B env username tags desc fs count s)"

definition upload_B ::
  "env \<Rightarrow> http_method \<Rightarrow> string option \<Rightarrow> file_storage list \<Rightarrow> string option \<Rightarrow> string option \<Rightarrow>
   stateB \<Rightarrow> (error + response) \<times> stateB" where
  "upload_B env meth session files tags_arg desc_arg s =
     (case session of
        None \<Rightarrow> (Inr (Redirect ''login'' None), s)
      | Some username \<Rightarrow>
          (if meth = POST then
             (case files of
                [] \<Rightarrow> (Inr (Redirect ''upload'' (Some NoFilesSelected)), s)
              | f0 # rest \<Rightarrow>
                  (if filename f0 = [] then (Inr (Redirect ''upload'' (Some NoFilesSelected)), s)
                   else
                     (case upload_files_B env username (strip (form_get tags_arg))
                             (strip (form_get desc_arg)) files 0 s of
                        (Inl e, s') \<Rightarrow> (Inl e, s')
                      | (Inr count, s') \<Rightarrow> (Inr (Redirect ''gallery'' (Some (Uploaded count))), s'))))
           else (Inr (RenderForm ''upload.html''), s)))"

subsection \<open>A fragment of the regular expressions\<close>

text \<open>
  The patterns made of ordinary ASCII characters and dots, searched without regard to case
  as option \<^verbatim>\<open>i\<close> asks: an ordinary character stands for itself in either case, a dot
  for any character but a line feed, and the pattern may match anywhere in the string. A
  pattern with another metacharacter or with a character beyond ASCII is outside the
  fragment: the description leaves it without an answer, it does not say that the server
  rejects it.
\<close>

datatype atom = AnyChar | Lit char

definition metachars :: "char list" where
  "metachars = CHR 0x5C # ''^$.|?*+()[]{}''"

definition is_ascii :: "char \<Rightarrow> bool" where
  "is_ascii c = ((of_char c :: nat) < 128)"

fun parse_simple :: "string \<Rightarrow> atom list option" where
  "parse_simple [] = Some []"
| "parse_simple (c # cs) =
     (if c = CHR ''.'' then map_option (Cons AnyChar) (parse_simple cs)
      else if c \<in> set metachars \<or> \<not> is_ascii c then None
      else map_option (Cons (Lit c)) (parse_simple cs))"

fun atom_matches :: "atom \<Rightarrow> char \<Rightarrow> bool" where
  "atom_matches AnyChar d = (d \<noteq> CHR 0x0A)"
| "atom_matches (Lit c) d = (lower_char c = lower_char d)"

fun match_here :: "atom list \<Rightarrow> string \<Rightarrow> bool" where
  "match_here [] s = True"
| "match_here (a # as) [] = False"
| "match_here (a # as) (d # s) = (atom_matches a d \<and> match_here as s)"

fun regex_search :: "atom list \<Rightarrow> string \<Rightarrow> bool" where
  "regex_search as [] = (as = [])"
| "regex_search as (d # s) = (match_here as (d # s) \<or> regex_search as s)"

definition simple_regex :: regex_engine where
  "simple_regex q =
     (case parse_simple q of None \<Rightarrow> Unmodelled | Some as \<Rightarrow> Matcher (regex_search as))"

subsection \<open>Sequences of registrations\<close>

text \<open>
  A run of registration requests, one after the other, and the number of user records
  that carry a given user name.
\<close>

fun registers_A :: "env \<Rightarrow> register_form list \<Rightarrow> stateA \<Rightarrow> stateA" where
  "registers_A env [] s = s"
| "registers_A env (form # forms) s = registers_A env forms (snd (register_A env POST form s))"

fun registers_B :: "env \<Rightarrow> register_form list \<Rightarrow> stateB \<Rightarrow> stateB" where
  "registers_B env [] s = s"
| "registers_B env (form # forms) s = registers_B env forms (snd (register_B env POST form s))"

definition count_users :: "string \<Rightarrow> item list \<Rightarrow> nat" where
  "count_users u xs = length (filter (attr_eq ''username'' u) xs)"

text \<open>A unique index on a field: no two documents agree on it.\<close>

definition unique_index :: "string \<Rightarrow> item list \<Rightarrow> bool" where
  "unique_index field xs = distinct (map (\<lambda>d. map_of d field) xs)"

subsection \<open>What an upload is expected to write\<close>

text \<open>
  The calls to the stores that a list of files is to cause, file by file: for a file whose
  name passes the check, the write of the blob and the write of the metadata, under the
  identifier of that draw; for any other file, nothing. And the number of files that
  pass.
\<close>

fun upload_events :: "env \<Rightarrow> string \<Rightarrow> nat \<Rightarrow> file_storage list \<Rightarrow> event list" where
  "upload_events env u n [] = []"
| "upload_events env u n (f # fs) =
     (if ok_file (filename f)
      then [S3Put (''photos/'' @ u @ ''/'' @ uuid4 env n @ ''_'' @ secure_filename env (filename f)),
            DbPut ''photos'' (uuid4 env n)] @ upload_events env u (Suc n) fs
      else upload_events env u n fs)"

definition accepted :: "file_storage list \<Rightarrow> nat" where
  "accepted files = length (filter (\<lambda>f. ok_file (filename f)) files)"

text \<open>
  What the two writes for one file are to leave in the stores. The blob goes into the
  bucket under the key made of the user, the identifier of the draw and the secured name;
  the metadata is the photo item of that identifier, key and name, with the user, the tags,
  the description and the time of the draw. \<open>write_photo_A\<close> and \<open>write_photo_B\<close> are
  the state after the two writes; the theorems below say what can be read back from it.
\<close>

definition blob_key :: "env \<Rightarrow> string \<Rightarrow> nat \<Rightarrow> file_storage \<Rightarrow> string" where
  "blob_key env u n f = ''photos/'' @ u @ ''/'' @ uuid4 env n @ ''_'' @ secure_filename env (filename f)"

definition new_photo :: "env \<Rightarrow> string \<Rightarrow> string \<Rightarrow> string \<Rightarrow> nat \<Rightarrow> file_storage \<Rightarrow> item" where
  "new_photo env u tags desc n f =
     photo_item (uuid4 env n) u (secure_filename env (filename f)) (blob_key env u n f) tags desc
       (utcnow env n)"

definition write_photo_A :: "env \<Rightarrow> string \<Rightarrow> string \<Rightarrow> string \<Rightarrow> stateA \<Rightarrow> file_storage \<Rightarrow> stateA" where
  "write_photo_A env u tags desc s f =
     (case put_item (photos_tbl s) (new_photo env u tags desc (tick s) f) of
        Inl e \<Rightarrow> upload_fileobj (blob_key env u (tick s) f) (stream f) s
      | Inr t \<Rightarrow>
          s\<lparr>bucket := (bucket s)(blob_key env u (tick s) f \<mapsto> stream f),
            trace := trace s @ [S3Put (blob_key env u (tick s) f), DbPut ''photos'' (uuid4 env (tick s))],
            tick := tick s + 1,
            photos_tbl := t\<rparr>)"

definition write_photo_B :: "env \<Rightarrow> string \<Rightarrow> string \<Rightarrow> string \<Rightarrow> stateB \<Rightarrow> file_storage \<Rightarrow> stateB" where
  "write_photo_B env u tags desc s f =
     s\<lparr>bucket := (bucket s)(blob_key env u (tick s) f \<mapsto> stream f),
       trace := trace s @ [S3Put (blob_key env u (tick s) f), DbPut ''photos'' (uuid4 env (tick s))],
       tick := tick s + 1,
       photos_col := photos_col s @ [new_photo env u tags desc (tick s) f]\<rparr>"

section \<open>Example data\<close>

definition example_alice :: item where
  "example_alice = [(''username'', ''alice''), (''password'', ''5e88''), (''email'', ''a@x.org''),
                    (''created_at'', ''2024-01-01T10:00:00'')]"

definition example_bob :: item where
  "example_bob = [(''username'', ''bob''), (''password'', ''9f86''), (''email'', []),
                  (''created_at'', ''2024-01-02T09:30:00'')]"

definition example_carol :: item where
  "example_carol = [(''username'', ''carol''), (''password'', ''2c26''), (''email'', ''c@x.org''),
                    (''created_at'', ''2023-12-24T18:00:00'')]"

definition example_cat :: item where
  "example_cat = [(''photo_id'', ''p1''), (''username'', ''alice''), (''filename'', ''cat.png''),
                  (''s3_key'', ''photos/alice/p1_cat.png''), (''tags'', ''pet''),
                  (''description'', []), (''uploaded_at'', ''2024-01-03T08:00:00'')]"

definition example_dog :: item where
  "example_dog = [(''photo_id'', ''p2''), (''username'', ''alice''), (''filename'', ''dog.jpg''),
                  (''s3_key'', ''photos/alice/p2_dog.jpg''), (''tags'', ''pet walk''),
                  (''description'', []), (''uploaded_at'', ''2024-01-04T08:00:00'')]"

text \<open>Two tables whose scan takes two pages each.\<close>

definition example_users_tbl :: dynamo_table where
  "example_users_tbl =
     \<lparr>key_attr = ''username'', rows = [example_alice, example_bob], page_limit = 1,
      slot = (\<lambda>k rs. 0)\<rparr>"

definition example_photos_tbl :: dynamo_table where
  "example_photos_tbl =
     \<lparr>key_attr = ''photo_id'', rows = [example_cat, example_dog], page_limit = 1,
      slot = (\<lambda>k rs. 0)\<rparr>"

text \<open>The same photos in a table that one page holds.\<close>

definition example_photos_one_page :: dynamo_table where
  "example_photos_one_page =
     \<lparr>key_attr = ''photo_id'', rows = [example_cat, example_dog], page_limit = 25,
      slot = (\<lambda>k rs. 0)\<rparr>"

definition example_env :: env where
  "example_env =
     \<lparr>pw = (\<lambda>p. ''sha256:'' @ p),
      secure_filename = (\<lambda>n. n),
      uuid4 = (\<lambda>n. ''id'' @ replicate n (CHR ''+'')),
      utcnow = (\<lambda>n. ''2024-02-01T00:00:00'' @ replicate n (CHR ''0''))\<rparr>"

definition example_bucket :: "string \<rightharpoonup> string" where
  "example_bucket =
     [''photos/alice/p1_cat.png'' \<mapsto> ''<png>'', ''photos/alice/p2_dog.jpg'' \<mapsto> ''<jpg>'']"

definition example_stateA :: stateA where
  "example_stateA =
     \<lparr>bucket = example_bucket, trace = [], tick = 0,
      users_tbl = example_users_tbl, photos_tbl = example_photos_tbl\<rparr>"

definition example_stateA_one_page :: stateA where
  "example_stateA_one_page =
     \<lparr>bucket = example_bucket, trace = [], tick = 0,
      users_tbl = example_users_tbl, photos_tbl = example_photos_one_page\<rparr>"

definition example_stateB :: stateB where
  "example_stateB =
     \<lparr>bucket = example_bucket, trace = [], tick = 0,
      users_col = [example_alice, example_bob], photos_col = [example_cat, example_dog]\<rparr>"

definition example_files :: "file_storage list" where
  "example_files =
     [\<lparr>filename = ''cat.png'', stream = ''<png>'', content_type = ''image/png''\<rparr>,
      \<lparr>filename = ''notes.txt'', stream = ''hello'', content_type = ''text/plain''\<rparr>,
      \<lparr>filename = ''Dog.JPG'', stream = ''<jpg>'', content_type = ''image/jpeg''\<rparr>]"

text \<open>A submission whose first part has no file name and whose second part is a picture.\<close>

definition example_files_empty_first :: "file_storage list" where
  "example_files_empty_first =
     [\<lparr>filename = [], stream = [], content_type = ''application/octet-stream''\<rparr>,
      \<lparr>filename = ''cat.png'', stream = ''<png>'', content_type = ''image/png''\<rparr>]"

section \<open>Properties of the stores and of the migration\<close>

text \<open>The substring test is the one of the list library.\<close>

lemma starts_with_prefix: "starts_with q s = prefix q s"
  by (induction q s rule: starts_with.induct) simp_all

lemma py_in_sublist: "py_in q s = sublist q s"
  by (induction s) (simp_all add: starts_with_prefix sublist_Cons_right del: starts_with.simps)


lemma scan_all_loop_eq:
  "scan_all_loop t items start = items @ drop (scan_offset start) (rows t)"
proof (induction t items start rule: scan_all_loop.induct)
  case (1 t items last_key)
  show ?case
  proof (cases "LastEvaluatedKey (scan t (\<lambda>_. True) last_key)")
    case None
    then have "length (rows t) \<le> scan_offset last_key + page_len t"
      by (simp add: scan_def split: if_splits)
    then show ?thesis
      using None by (subst scan_all_loop.simps) (simp add: scan_def)
  next
    case (Some k)
    then have k: "k = LastKey (scan_offset last_key + page_len t)"
      by (simp add: scan_def split: if_splits)
    have "scan_all_loop t items last_key =
          scan_all_loop t (items @ Items (scan t (\<lambda>_. True) last_key)) (Some k)"
      using Some by (subst scan_all_loop.simps) simp
    also have "\<dots> = (items @ Items (scan t (\<lambda>_. True) last_key)) @ drop (scan_offset (Some k)) (rows t)"
      using "1.IH" [OF Some] .
    also have "\<dots> = items @ drop (scan_offset last_key) (rows t)"
      using append_take_drop_id [of "page_len t" "drop (scan_offset last_key) (rows t)"]
      by (simp add: k scan_def scan_offset_def add.commute)
    finally show ?thesis .
  qed
qed

lemma scan_all_rows: "scan_all t = rows t"
  by (simp add: scan_all_def scan_all_loop_eq scan_offset_def)

lemma matches_key: "matches [(key, k)] = attr_eq key k"
  by (simp add: matches_def attr_eq_def fun_eq_iff)

lemma find_replace_first_other:
  "\<not> Q u \<Longrightarrow> (\<And>d. P d \<Longrightarrow> \<not> Q d) \<Longrightarrow> find Q (replace_first P u ds) = find Q ds"
  by (induction ds) auto

lemma find_replace_first_same:
  "P u \<Longrightarrow> find P ds = Some d \<Longrightarrow> find P (replace_first P u ds) = Some u"
  by (induction ds) (auto split: if_splits)

lemma replace_first_id: "find P ds = Some u \<Longrightarrow> replace_first P u ds = ds"
  by (induction ds) (auto split: if_splits)

lemma length_replace_first: "length (replace_first P u ds) = length ds"
  by (induction ds) auto

lemma find_append: "find Q (xs @ ys) = (case find Q xs of None \<Rightarrow> find Q ys | Some d \<Rightarrow> Some d)"
  by (induction xs) auto

lemma replace_ops_keyed:
  "list_all (\<lambda>u. map_of u key \<noteq> None) us \<Longrightarrow> replace_ops key us = Inr (keyed_ops key us)"
  by (induction us) (auto simp: keyed_ops_def subscript_def get_default_def)


lemma same_key_attr_eq: "map_of u key = Some k \<Longrightarrow> same_key key u = attr_eq key k"
  by (auto simp: same_key_def attr_eq_def fun_eq_iff)

lemma keyed_ops_Cons:
  "map_of u key = Some k \<Longrightarrow> keyed_ops key (u # us) = ReplaceOne [(key, k)] u True # keyed_ops key us"
  by (simp add: keyed_ops_def get_default_def)

lemma fst_run_ops_Cons: "fst (run_ops col (w # ws)) = fst (run_ops (fst (apply_op col w)) ws)"
  by (simp split: prod.splits)

lemma apply_find_other:
  assumes "map_of u key = Some k" "k' \<noteq> k"
  shows "find (attr_eq key k') (fst (apply_op col (ReplaceOne [(key, k)] u True))) =
         find (attr_eq key k') col"
proof (cases "find (attr_eq key k) col")
  case None
  then show ?thesis using assms
    by (simp add: apply_op.simps matches_key find_append attr_eq_def split: option.splits)
next
  case (Some d)
  have "find (attr_eq key k') (replace_first (attr_eq key k) u col) = find (attr_eq key k') col"
    using assms by (intro find_replace_first_other) (auto simp: attr_eq_def)
  then show ?thesis using Some by (simp add: apply_op.simps matches_key)
qed

lemma apply_find_same:
  assumes "map_of u key = Some k"
  shows "find (attr_eq key k) (fst (apply_op col (ReplaceOne [(key, k)] u True))) = Some u"
proof (cases "find (attr_eq key k) col")
  case None
  then show ?thesis using assms
    by (simp add: apply_op.simps matches_key find_append attr_eq_def split: option.splits)
next
  case (Some d)
  have "attr_eq key k u" using assms by (simp add: attr_eq_def)
  then have "find (attr_eq key k) (replace_first (attr_eq key k) u col) = Some u"
    using Some by (rule find_replace_first_same)
  then show ?thesis using Some by (simp add: apply_op.simps matches_key)
qed

lemma run_find_other:
  "list_all (\<lambda>u. map_of u key \<noteq> None) us \<Longrightarrow> \<forall>u\<in>set us. map_of u key \<noteq> Some k' \<Longrightarrow>
   find (attr_eq key k') (fst (run_ops col (keyed_ops key us))) = find (attr_eq key k') col"
proof (induction us arbitrary: col)
  case Nil
  then show ?case by (simp add: keyed_ops_def)
next
  case (Cons u us)
  then obtain k where k: "map_of u key = Some k" by auto
  with Cons.prems have ne: "k' \<noteq> k" by auto
  obtain col1 r1 where a: "apply_op col (ReplaceOne [(key, k)] u True) = (col1, r1)"
    by (cases "apply_op col (ReplaceOne [(key, k)] u True)")
  have "find (attr_eq key k') col1 = find (attr_eq key k') col"
    using apply_find_other [OF k ne, of col] a by simp
  moreover have "find (attr_eq key k') (fst (run_ops col1 (keyed_ops key us))) = find (attr_eq key k') col1"
    using Cons.IH [of col1] Cons.prems by simp
  ultimately show ?case
    by (simp add: keyed_ops_Cons [OF k] fst_run_ops_Cons a del: run_ops.simps)
qed

lemma run_find_same:
  "list_all (\<lambda>u. map_of u key \<noteq> None) us \<Longrightarrow> distinct (map (\<lambda>u. map_of u key) us) \<Longrightarrow>
   u \<in> set us \<Longrightarrow> find (same_key key u) (fst (run_ops col (keyed_ops key us))) = Some u"
proof (induction us arbitrary: col)
  case Nil
  then show ?case by simp
next
  case (Cons v us)
  then obtain k where k: "map_of v key = Some k" by auto
  obtain col1 r1 where a: "apply_op col (ReplaceOne [(key, k)] v True) = (col1, r1)"
    by (cases "apply_op col (ReplaceOne [(key, k)] v True)")
  have run: "fst (run_ops col (keyed_ops key (v # us))) = fst (run_ops col1 (keyed_ops key us))"
    by (simp add: keyed_ops_Cons [OF k] fst_run_ops_Cons a del: run_ops.simps)
  show ?case
  proof (cases "u = v")
    case True
    have "\<forall>w\<in>set us. map_of w key \<noteq> Some k"
      using Cons.prems(2) k by (auto simp: image_iff)
    then have "find (attr_eq key k) (fst (run_ops col1 (keyed_ops key us))) = find (attr_eq key k) col1"
      using Cons.prems(1) by (intro run_find_other) simp_all
    also have "\<dots> = Some v"
      using apply_find_same [OF k, of col] a by simp
    finally show ?thesis
      using True run by (simp add: same_key_attr_eq [OF k])
  next
    case False
    then have "u \<in> set us" using Cons.prems(3) by simp
    then show ?thesis
      using Cons.IH [of col1] Cons.prems run by simp
  qed
qed

lemma run_ops_again:
  "\<forall>u\<in>set us. map_of u key \<noteq> None \<and> find (same_key key u) col = Some u \<Longrightarrow>
   run_ops col (keyed_ops key us) =
     (col, \<lparr>upserted_count = 0, matched_count = length us, modified_count = length us\<rparr>)"
proof (induction us)
  case Nil
  then show ?case by (simp add: keyed_ops_def)
next
  case (Cons u us)
  then obtain k where k: "map_of u key = Some k" by auto
  have f: "find (attr_eq key k) col = Some u"
    using Cons.prems by (simp add: same_key_attr_eq [OF k])
  have "apply_op col (ReplaceOne [(key, k)] u True) =
        (col, \<lparr>upserted_count = 0, matched_count = 1, modified_count = 1\<rparr>)"
    using f by (simp add: apply_op.simps matches_key replace_first_id)
  then show ?case
    using Cons by (simp add: keyed_ops_Cons [OF k] add_result_def)
qed

lemma run_ops_counts:
  "list_all (\<lambda>u. map_of u key \<noteq> None) us \<Longrightarrow> distinct (map (\<lambda>u. map_of u key) us) \<Longrightarrow>
   upserted_count (snd (run_ops col (keyed_ops key us))) = newly_inserted key col us \<and>
   matched_count (snd (run_ops col (keyed_ops key us))) = previously_existing key col us \<and>
   modified_count (snd (run_ops col (keyed_ops key us))) = previously_existing key col us \<and>
   length (fst (run_ops col (keyed_ops key us))) = length col + newly_inserted key col us"
proof (induction us arbitrary: col)
  case Nil
  then show ?case
    by (simp add: keyed_ops_def newly_inserted_def previously_existing_def)
next
  case (Cons u us)
  then obtain k where k: "map_of u key = Some k" by auto
  obtain col1 r1 where a: "apply_op col (ReplaceOne [(key, k)] u True) = (col1, r1)"
    by (cases "apply_op col (ReplaceOne [(key, k)] u True)")
  obtain col2 r2 where b: "run_ops col1 (keyed_ops key us) = (col2, r2)"
    by (cases "run_ops col1 (keyed_ops key us)")
  have run: "run_ops col (keyed_ops key (u # us)) = (col2, add_result r1 r2)"
    using a b by (simp add: keyed_ops_Cons [OF k])
  have same: "find (same_key key w) col1 = find (same_key key w) col" if w: "w \<in> set us" for w
  proof -
    obtain kw where kw: "map_of w key = Some kw" using Cons.prems(1) w
      by (auto simp: list_all_iff)
    have "kw \<noteq> k" using Cons.prems(2) w k kw by (auto simp: image_iff)
    then show ?thesis
      using apply_find_other [OF k, of kw col] a by (simp add: same_key_attr_eq [OF kw])
  qed
  have n1: "newly_inserted key col1 us = newly_inserted key col us"
    unfolding newly_inserted_def by (rule arg_cong [where f = length], rule filter_cong) (simp_all add: same)
  have n2: "previously_existing key col1 us = previously_existing key col us"
    unfolding previously_existing_def by (rule arg_cong [where f = length], rule filter_cong) (simp_all add: same)
  have ih: "upserted_count r2 = newly_inserted key col1 us \<and>
            matched_count r2 = previously_existing key col1 us \<and>
            modified_count r2 = previously_existing key col1 us \<and>
            length col2 = length col1 + newly_inserted key col1 us"
    using Cons.IH [of col1] Cons.prems b by simp
  show ?case
  proof (cases "find (attr_eq key k) col")
    case None
    then have "col1 = col @ [u]" "r1 = \<lparr>upserted_count = 1, matched_count = 0, modified_count = 0\<rparr>"
      using a by (simp_all add: apply_op.simps matches_key)
    then show ?thesis
      using ih n1 n2 None run
      by (simp add: add_result_def newly_inserted_def previously_existing_def
          same_key_attr_eq [OF k])
  next
    case (Some d)
    then have "col1 = replace_first (attr_eq key k) u col"
      "r1 = \<lparr>upserted_count = 0, matched_count = 1, modified_count = 1\<rparr>"
      using a by (simp_all add: apply_op.simps matches_key)
    then show ?thesis
      using ih n1 n2 Some run
      by (simp add: add_result_def newly_inserted_def previously_existing_def
          same_key_attr_eq [OF k] length_replace_first)
  qed
qed

lemma keyed_ops_empty: "keyed_ops key us = [] \<longleftrightarrow> us = []"
  by (simp add: keyed_ops_def)

lemma migrate_users_run:
  assumes "key_schema ''username'' src"
  shows "migrate_users src dst =
         (if rows src = [] then Inr (dst, \<lparr>found = 0, counts = None\<rparr>)
          else Inr (fst (run_ops dst (keyed_ops ''username'' (rows src))),
                    \<lparr>found = length (rows src),
                     counts = Some (upserted_count (snd (run_ops dst (keyed_ops ''username'' (rows src)))),
                                    modified_count (snd (run_ops dst (keyed_ops ''username'' (rows src)))))\<rparr>))"
proof -
  have "replace_ops ''username'' (rows src) = Inr (keyed_ops ''username'' (rows src))"
    using assms by (intro replace_ops_keyed) (simp add: key_schema_def)
  then show ?thesis
    by (simp add: migrate_users_def scan_all_rows bulk_write_def keyed_ops_empty Let_def split: prod.splits)
qed

lemma migrate_photos_run:
  assumes "key_schema ''photo_id'' src"
  shows "migrate_photos src dst =
         (if rows src = [] then Inr (dst, \<lparr>found = 0, counts = None\<rparr>)
          else Inr (fst (run_ops dst (keyed_ops ''photo_id'' (rows src))),
                    \<lparr>found = length (rows src),
                     counts = Some (upserted_count (snd (run_ops dst (keyed_ops ''photo_id'' (rows src)))),
                                    modified_count (snd (run_ops dst (keyed_ops ''photo_id'' (rows src)))))\<rparr>))"
proof -
  have "replace_ops ''photo_id'' (rows src) = Inr (keyed_ops ''photo_id'' (rows src))"
    using assms by (intro replace_ops_keyed) (simp add: key_schema_def)
  then show ?thesis
    by (simp add: migrate_photos_def scan_all_rows bulk_write_def keyed_ops_empty Let_def split: prod.splits)
qed

lemma run_ops_Nil: "run_ops col (keyed_ops key []) =
    (col, \<lparr>upserted_count = 0, matched_count = 0, modified_count = 0\<rparr>)"
  by (simp add: keyed_ops_def)

text \<open>
  The destination of a table after one step: the collection the upserts leave. It is the
  old destination when the table is empty.
\<close>

lemma upserts_hold:
  assumes "key_schema key src" "u \<in> set (rows src)"
  shows "find (same_key key u) (fst (run_ops dst (keyed_ops key (rows src)))) = Some u"
  using assms by (intro run_find_same) (simp_all add: key_schema_def)

lemma find_Some_member: "find P xs = Some x \<Longrightarrow> x \<in> set xs"
  by (auto simp: find_Some_iff)

text \<open>
  C3. After one run of the migration, every user and every photo the paginated scan of
  the source returns (the scan returns every item of the table, whatever the page size)
  is in the destination, equal field by field to the source item, and is the document
  found there under its natural key.
\<close>

theorem migration_round_trip:
  assumes "key_schema ''username'' (fst src)" and "key_schema ''photo_id'' (snd src)"
  shows "scan_all (fst src) = rows (fst src) \<and> scan_all (snd src) = rows (snd src) \<and>
         (\<exists>r users' photos'. main src dst = (Inr r, (users', photos')) \<and>
            (\<forall>u\<in>set (scan_all (fst src)).
               u \<in> set users' \<and> find (same_key ''username'' u) users' = Some u) \<and>
            (\<forall>p\<in>set (scan_all (snd src)).
               p \<in> set photos' \<and> find (same_key ''photo_id'' p) photos' = Some p))"
proof -
  let ?U = "fst (run_ops (fst dst) (keyed_ops ''username'' (rows (fst src))))"
  let ?P = "fst (run_ops (snd dst) (keyed_ops ''photo_id'' (rows (snd src))))"
  have m: "\<exists>r. main src dst = (Inr r, (?U, ?P))"
    using migrate_users_run [OF assms(1), of "fst dst"] migrate_photos_run [OF assms(2), of "snd dst"]
    by (cases "rows (fst src) = []"; cases "rows (snd src) = []")
       (simp_all add: main_def run_ops_Nil)
  have u: "find (same_key ''username'' u) ?U = Some u" if "u \<in> set (rows (fst src))" for u
    using assms(1) that by (rule upserts_hold)
  have p: "find (same_key ''photo_id'' p) ?P = Some p" if "p \<in> set (rows (snd src))" for p
    using assms(2) that by (rule upserts_hold)
  have u': "u \<in> set ?U" if "u \<in> set (rows (fst src))" for u
    using u [OF that] by (rule find_Some_member)
  have p': "p \<in> set ?P" if "p \<in> set (rows (snd src))" for p
    using p [OF that] by (rule find_Some_member)
  from m obtain r where "main src dst = (Inr r, (?U, ?P))" ..
  then show ?thesis
    using u p u' p' by (simp add: scan_all_rows)
qed

theorem migration_round_trip_witness:
  "key_schema ''username'' example_users_tbl \<and> key_schema ''photo_id'' example_photos_tbl \<and>
   find (same_key ''username'' example_bob)
     (fst (snd (main (example_users_tbl, example_photos_tbl) ([example_carol], [])))) = Some example_bob \<and>
   example_dog \<in> set (snd (snd (main (example_users_tbl, example_photos_tbl) ([example_carol], []))))"
proof -
  have h1: "key_schema ''username'' (fst (example_users_tbl, example_photos_tbl))"
    by (simp add: key_schema_def example_users_tbl_def example_alice_def example_bob_def)
  have h2: "key_schema ''photo_id'' (snd (example_users_tbl, example_photos_tbl))"
    by (simp add: key_schema_def example_photos_tbl_def example_cat_def example_dog_def)
  have b: "example_bob \<in> set (rows example_users_tbl)" "example_dog \<in> set (rows example_photos_tbl)"
    by (simp_all add: example_users_tbl_def example_photos_tbl_def)
  show ?thesis
    using migration_round_trip [OF h1 h2, of "([example_carol], [])"] h1 h2 b
    by (auto simp: scan_all_rows)
qed

lemma rerun_unchanged:
  assumes "key_schema key src"
  shows "run_ops (fst (run_ops dst (keyed_ops key (rows src)))) (keyed_ops key (rows src)) =
         (fst (run_ops dst (keyed_ops key (rows src))),
          \<lparr>upserted_count = 0, matched_count = length (rows src),
           modified_count = length (rows src)\<rparr>)"
proof (rule run_ops_again, intro ballI conjI)
  fix u assume u: "u \<in> set (rows src)"
  show "map_of u key \<noteq> None"
    using assms u by (simp add: key_schema_def list_all_iff)
  show "find (same_key key u) (fst (run_ops dst (keyed_ops key (rows src)))) = Some u"
    using assms u by (rule upserts_hold)
qed

lemma newly_inserted_empty: "newly_inserted key [] us = length us"
  by (simp add: newly_inserted_def)

lemma main_run:
  assumes "key_schema ''username'' (fst src)" and "key_schema ''photo_id'' (snd src)"
  shows "main src dst =
         (Inr (\<lparr>found = length (rows (fst src)),
                counts = (if rows (fst src) = [] then None
                          else Some (upserted_count (snd (run_ops (fst dst) (keyed_ops ''username'' (rows (fst src))))),
                                     modified_count (snd (run_ops (fst dst) (keyed_ops ''username'' (rows (fst src)))))))\<rparr>,
               \<lparr>found = length (rows (snd src)),
                counts = (if rows (snd src) = [] then None
                          else Some (upserted_count (snd (run_ops (snd dst) (keyed_ops ''photo_id'' (rows (snd src))))),
                                     modified_count (snd (run_ops (snd dst) (keyed_ops ''photo_id'' (rows (snd src)))))))\<rparr>),
          (fst (run_ops (fst dst) (keyed_ops ''username'' (rows (fst src)))),
           fst (run_ops (snd dst) (keyed_ops ''photo_id'' (rows (snd src))))))"
  using migrate_users_run [OF assms(1), of "fst dst"] migrate_photos_run [OF assms(2), of "snd dst"]
  by (cases "rows (fst src) = []"; cases "rows (snd src) = []") (simp_all add: main_def run_ops_Nil)

text \<open>
  C2, as the code has it. A second run over the unchanged source inserts nothing (its
  upserted count is 0, where it reports counts at all) and leaves the documents of the
  destination as the first run left them, so the count of the destination is stable. That
  count is the count before the first run plus the number of source items whose key the
  destination lacked: the source count when the destination starts empty, more when it
  held documents of other keys. Every write is an upsert by the natural key: the document
  found under the key afterwards is the source item.
\<close>

theorem migration_second_run:
  assumes "key_schema ''username'' (fst src)" and "key_schema ''photo_id'' (snd src)"
  shows "\<exists>r1 d1 r2.
           main src dst = (Inr r1, d1) \<and> main src d1 = (Inr r2, d1) \<and>
           map_option fst (counts (fst r2)) = (if scan_all (fst src) = [] then None else Some 0) \<and>
           map_option fst (counts (snd r2)) = (if scan_all (snd src) = [] then None else Some 0) \<and>
           length (fst d1) =
             length (fst dst) + newly_inserted ''username'' (fst dst) (scan_all (fst src)) \<and>
           length (snd d1) =
             length (snd dst) + newly_inserted ''photo_id'' (snd dst) (scan_all (snd src)) \<and>
           (dst = ([], []) \<longrightarrow>
              length (fst d1) = length (scan_all (fst src)) \<and>
              length (snd d1) = length (scan_all (snd src))) \<and>
           (\<forall>u\<in>set (scan_all (fst src)). find (same_key ''username'' u) (fst d1) = Some u) \<and>
           (\<forall>p\<in>set (scan_all (snd src)). find (same_key ''photo_id'' p) (snd d1) = Some p)"
proof -
  let ?U = "fst (run_ops (fst dst) (keyed_ops ''username'' (rows (fst src))))"
  let ?P = "fst (run_ops (snd dst) (keyed_ops ''photo_id'' (rows (snd src))))"
  have first: "\<exists>r1. main src dst = (Inr r1, (?U, ?P))"
    by (simp add: main_run [OF assms])
  have second: "\<exists>r2. main src (?U, ?P) = (Inr r2, (?U, ?P)) \<and>
      map_option fst (counts (fst r2)) = (if rows (fst src) = [] then None else Some 0) \<and>
      map_option fst (counts (snd r2)) = (if rows (snd src) = [] then None else Some 0)"
    by (simp add: main_run [OF assms] rerun_unchanged [OF assms(1)] rerun_unchanged [OF assms(2)])
  have cu: "length ?U = length (fst dst) + newly_inserted ''username'' (fst dst) (rows (fst src))"
    using run_ops_counts [of "''username''" "rows (fst src)" "fst dst"] assms(1)
    by (simp add: key_schema_def)
  have cp: "length ?P = length (snd dst) + newly_inserted ''photo_id'' (snd dst) (rows (snd src))"
    using run_ops_counts [of "''photo_id''" "rows (snd src)" "snd dst"] assms(2)
    by (simp add: key_schema_def)
  have e: "dst = ([], []) \<longrightarrow> length ?U = length (rows (fst src)) \<and> length ?P = length (rows (snd src))"
    using cu cp by (auto simp: newly_inserted_empty)
  have fu: "\<forall>u\<in>set (rows (fst src)). find (same_key ''username'' u) ?U = Some u"
    using assms(1) by (auto intro: upserts_hold)
  have fp: "\<forall>p\<in>set (rows (snd src)). find (same_key ''photo_id'' p) ?P = Some p"
    using assms(2) by (auto intro: upserts_hold)
  from first obtain r1 where r1: "main src dst = (Inr r1, (?U, ?P))" ..
  from second obtain r2 where r2: "main src (?U, ?P) = (Inr r2, (?U, ?P))"
    "map_option fst (counts (fst r2)) = (if rows (fst src) = [] then None else Some 0)"
    "map_option fst (counts (snd r2)) = (if rows (snd src) = [] then None else Some 0)" by blast
  show ?thesis
    apply (rule exI [of _ r1], rule exI [of _ "(?U, ?P)"], rule exI [of _ r2])
    using r1 r2 cu cp e fu fp by (simp add: scan_all_rows)
qed

lemmas example_data =
  example_alice_def example_bob_def example_carol_def example_cat_def example_dog_def
  example_users_tbl_def example_photos_tbl_def

lemmas migration_eval =
  main_def migrate_users_def migrate_photos_def scan_all_rows Let_def bulk_write_def
  subscript_def apply_op.simps matches_def add_result_def

lemma example_key_schema:
  "key_schema ''username'' example_users_tbl" "key_schema ''photo_id'' example_photos_tbl"
  by (simp_all add: key_schema_def example_data)

theorem migration_second_run_witness:
  "key_schema ''username'' example_users_tbl \<and> key_schema ''photo_id'' example_photos_tbl \<and>
   snd (main (example_users_tbl, example_photos_tbl)
          (snd (main (example_users_tbl, example_photos_tbl) ([], [])))) =
     snd (main (example_users_tbl, example_photos_tbl) ([], [])) \<and>
   map_sum id (\<lambda>r. (map_option fst (counts (fst r)), map_option fst (counts (snd r))))
     (fst (main (example_users_tbl, example_photos_tbl)
            (snd (main (example_users_tbl, example_photos_tbl) ([], []))))) =
     Inr (Some 0, Some 0) \<and>
   length (fst (snd (main (example_users_tbl, example_photos_tbl) ([], [])))) =
     length (scan_all example_users_tbl) \<and>
   length (snd (snd (main (example_users_tbl, example_photos_tbl) ([], [])))) =
     length (scan_all example_photos_tbl)"
proof -
  have h1: "key_schema ''username'' (fst (example_users_tbl, example_photos_tbl))"
    by (simp add: example_key_schema)
  have h2: "key_schema ''photo_id'' (snd (example_users_tbl, example_photos_tbl))"
    by (simp add: example_key_schema)
  have ne: "scan_all example_users_tbl \<noteq> []" "scan_all example_photos_tbl \<noteq> []"
    by (simp_all add: scan_all_rows example_users_tbl_def example_photos_tbl_def)
  from migration_second_run [OF h1 h2, of "([], [])"]
  obtain r1 d1 r2 where
    m: "main (example_users_tbl, example_photos_tbl) ([], []) = (Inr r1, d1)"
       "main (example_users_tbl, example_photos_tbl) d1 = (Inr r2, d1)"
       "map_option fst (counts (fst r2)) = Some 0" "map_option fst (counts (snd r2)) = Some 0"
       "length (fst d1) = length (scan_all example_users_tbl)"
       "length (snd d1) = length (scan_all example_photos_tbl)"
    using ne by auto
  show ?thesis
    using h1 h2 by (simp add: m)
qed

text \<open>
  The claim as the specification states it fails when the destination holds a document
  whose key the source lacks: the count is stable, and it is not the source count.
\<close>

theorem migration_count_counterexample:
  "map_sum id fst (migrate_users example_users_tbl [example_carol]) =
     Inr [example_carol, example_alice, example_bob] \<and>
   map_sum id fst (migrate_users example_users_tbl [example_carol, example_alice, example_bob]) =
     Inr [example_carol, example_alice, example_bob] \<and>
   length [example_carol, example_alice, example_bob] \<noteq> length (scan_all example_users_tbl)"
  by (simp add: migration_eval example_data)

text \<open>
  C9, as the code has it. For a table with items, a step reports two numbers that are,
  for every destination, the number of scanned items whose key the destination lacked
  before the run, which the step inserts, and the number of scanned items whose key it
  had, which the step overwrites. For a table without items the step prints the number
  found and returns before the bulk write: it reports no counts.
\<close>

theorem migration_report_counts:
  assumes "key_schema ''username'' (fst src)" and "key_schema ''photo_id'' (snd src)"
  shows "\<exists>r d1.
           main src dst = (Inr r, d1) \<and>
           counts (fst r) =
             (if scan_all (fst src) = [] then None
              else Some (newly_inserted ''username'' (fst dst) (scan_all (fst src)),
                         previously_existing ''username'' (fst dst) (scan_all (fst src)))) \<and>
           counts (snd r) =
             (if scan_all (snd src) = [] then None
              else Some (newly_inserted ''photo_id'' (snd dst) (scan_all (snd src)),
                         previously_existing ''photo_id'' (snd dst) (scan_all (snd src))))"
proof -
  have cu: "upserted_count (snd (run_ops (fst dst) (keyed_ops ''username'' (rows (fst src))))) =
              newly_inserted ''username'' (fst dst) (rows (fst src))"
           "modified_count (snd (run_ops (fst dst) (keyed_ops ''username'' (rows (fst src))))) =
              previously_existing ''username'' (fst dst) (rows (fst src))"
    using run_ops_counts [of "''username''" "rows (fst src)" "fst dst"] assms(1)
    by (simp_all add: key_schema_def)
  have cp: "upserted_count (snd (run_ops (snd dst) (keyed_ops ''photo_id'' (rows (snd src))))) =
              newly_inserted ''photo_id'' (snd dst) (rows (snd src))"
           "modified_count (snd (run_ops (snd dst) (keyed_ops ''photo_id'' (rows (snd src))))) =
              previously_existing ''photo_id'' (snd dst) (rows (snd src))"
    using run_ops_counts [of "''photo_id''" "rows (snd src)" "snd dst"] assms(2)
    by (simp_all add: key_schema_def)
  show ?thesis
    by (simp add: main_run [OF assms] scan_all_rows cu cp)
qed

theorem migration_report_counts_witness:
  "key_schema ''username'' example_users_tbl \<and> key_schema ''photo_id'' example_photos_tbl \<and>
   main (example_users_tbl, example_photos_tbl) ([example_carol, example_alice], [example_dog]) =
     (Inr (\<lparr>found = 2, counts = Some (1, 1)\<rparr>, \<lparr>found = 2, counts = Some (1, 1)\<rparr>),
      ([example_carol, example_alice, example_bob], [example_dog, example_cat])) \<and>
   newly_inserted ''username'' [example_carol, example_alice] (scan_all example_users_tbl) = 1 \<and>
   previously_existing ''username'' [example_carol, example_alice] (scan_all example_users_tbl) = 1"
proof -
  have h1: "key_schema ''username'' (fst (example_users_tbl, example_photos_tbl))"
    by (simp add: example_key_schema)
  have h2: "key_schema ''photo_id'' (snd (example_users_tbl, example_photos_tbl))"
    by (simp add: example_key_schema)
  show ?thesis
    using migration_report_counts [OF h1 h2, of "([example_carol, example_alice], [example_dog])"]
    by (simp add: migration_eval example_data key_schema_def newly_inserted_def
        previously_existing_def same_key_def)
qed

text \<open>
  The claim as the specification states it fails at a table without items: the two
  numbers it names are both 0 there, and the step reports no pair of counts.
\<close>

theorem migration_report_counterexample:
  "scan_all (example_users_tbl\<lparr>rows := []\<rparr>) = [] \<and>
   migrate_users (example_users_tbl\<lparr>rows := []\<rparr>) [example_alice] =
     Inr ([example_alice], \<lparr>found = 0, counts = None\<rparr>) \<and>
   counts \<lparr>found = 0, counts = None\<rparr> \<noteq>
     Some (newly_inserted ''username'' [example_alice] (scan_all (example_users_tbl\<lparr>rows := []\<rparr>)),
           previously_existing ''username'' [example_alice] (scan_all (example_users_tbl\<lparr>rows := []\<rparr>)))"
  by (simp add: migration_eval example_data newly_inserted_def previously_existing_def)

section \<open>Properties of the applications\<close>

lemmas app_eval =
  gallery_A_def gallery_B_def search_A_def search_B_def scan_def scan_offset_def page_len_def
  attr_eq_def matches_def sort_reverse_def sort_descending_def get_default_def form_get_def
  strip_def is_space_def lower_def lower_char_def capital_letters_def small_letters_def regex_field_def simple_regex_def
  metachars_def is_ascii_def Let_def log_def

lemmas example_states =
  example_stateA_def example_stateA_one_page_def example_stateB_def example_photos_one_page_def
  example_bucket_def example_env_def

subsection \<open>Search and gallery\<close>

text \<open>
  C7. A search with the empty query (or with none) renders the empty list of photos for
  every owner and every store, in both applications, and touches no store.
\<close>

theorem search_empty_query:
  "search_A (Some owner) (Some []) s = (Inr (Render ''search.html'' [] []), s) \<and>
   search_A (Some owner) None s = (Inr (Render ''search.html'' [] []), s) \<and>
   search_B regex (Some owner) (Some []) t = (Inr (Render ''search.html'' [] []), t) \<and>
   search_B regex (Some owner) None t = (Inr (Render ''search.html'' [] []), t)"
  by (simp add: search_A_def search_B_def form_get_def strip_def lower_def)

text \<open>The same holds for a query of white space only, which \<^verbatim>\<open>strip\<close> empties.\<close>

lemma search_blank_query:
  assumes "strip q = []"
  shows "search_A (Some owner) (Some q) s = (Inr (Render ''search.html'' [] []), s)"
    and "search_B regex (Some owner) (Some q) t = (Inr (Render ''search.html'' [] []), t)"
  using assms by (simp_all add: search_A_def search_B_def form_get_def lower_def)

lemma set_sort_reverse: "set (sort_reverse f xs) = set xs"
  by (simp add: sort_reverse_def)

lemma set_sort_descending: "set (sort_descending field xs) = set xs"
  by (simp add: sort_descending_def)

text \<open>
  C5. A photo whose \<^verbatim>\<open>username\<close> is \<open>a\<close> is in no gallery and in no search result of
  another user \<open>b\<close>, whatever the query, the store and the regular-expression engine, in
  both applications.
\<close>

theorem owner_isolation:
  assumes "map_of p ''username'' = Some a" and "b \<noteq> a"
  shows "p \<notin> set (photos_of (fst (gallery_A (Some b) s))) \<and>
         p \<notin> set (photos_of (fst (search_A (Some b) q s))) \<and>
         p \<notin> set (photos_of (fst (gallery_B (Some b) t))) \<and>
         p \<notin> set (photos_of (fst (search_B regex (Some b) q t)))"
proof (intro conjI)
  show "p \<notin> set (photos_of (fst (gallery_A (Some b) s)))"
    using assms by (simp add: gallery_A_def photos_of_def set_sort_reverse scan_def attr_eq_def Let_def)
  show "p \<notin> set (photos_of (fst (search_A (Some b) q s)))"
    using assms by (simp add: search_A_def photos_of_def scan_def attr_eq_def Let_def)
  show "p \<notin> set (photos_of (fst (gallery_B (Some b) t)))"
    using assms by (simp add: gallery_B_def photos_of_def set_sort_descending matches_def Let_def)
  show "p \<notin> set (photos_of (fst (search_B regex (Some b) q t)))"
    using assms
    by (simp add: search_B_def photos_of_def matches_def Let_def split: regex_result.splits)
qed

theorem owner_isolation_witness:
  "map_of example_cat ''username'' = Some ''alice'' \<and> ''bob'' \<noteq> ''alice'' \<and>
   example_cat \<notin> set (photos_of (fst (gallery_A (Some ''bob'') example_stateA))) \<and>
   example_cat \<notin> set (photos_of (fst (search_A (Some ''bob'') (Some ''cat'') example_stateA))) \<and>
   example_cat \<notin> set (photos_of (fst (gallery_B (Some ''bob'') example_stateB))) \<and>
   example_cat \<notin> set (photos_of (fst (search_B simple_regex (Some ''bob'') (Some ''cat'') example_stateB)))"
proof -
  have h: "map_of example_cat ''username'' = Some ''alice''" "''bob'' \<noteq> ''alice''"
    by (simp_all add: example_cat_def)
  show ?thesis
    using owner_isolation [OF h, of example_stateA "Some ''cat''" example_stateB simple_regex] h
    by simp
qed

text \<open>
  What the gallery of application A returns when one page holds the table: the owner's
  photos, descending by \<^verbatim>\<open>uploaded_at\<close>, photos of equal time in the order of the scan.
\<close>

lemma scan_one_page:
  assumes "length (rows t) \<le> page_len t"
  shows "scan t flt None = \<lparr>Items = filter flt (rows t), LastEvaluatedKey = None\<rparr>"
  using assms by (simp add: scan_def scan_offset_def)

lemma gallery_A_one_page:
  assumes "length (rows (photos_tbl s)) \<le> page_len (photos_tbl s)"
  shows "fst (gallery_A (Some u) s) =
         Inr (Render ''gallery.html''
               (sort_reverse (\<lambda>p. get_default p ''uploaded_at'' [])
                  (filter (attr_eq ''username'' u) (rows (photos_tbl s)))) u)"
  by (simp add: gallery_A_def scan_one_page [OF assms] Let_def)

lemma sort_reverse_descending: "sorted (rev (map f (sort_reverse f xs)))"
  by (simp add: sort_reverse_def rev_map)

lemma sort_reverse_stable:
  "filter (\<lambda>x. f x = k) (sort_reverse f xs) = filter (\<lambda>x. f x = k) xs"
proof -
  have "filter (\<lambda>x. f x = k) (sort_reverse f xs) = rev (filter (\<lambda>x. f x = k) (sort_key f (rev xs)))"
    by (simp add: sort_reverse_def rev_filter)
  also have "\<dots> = rev (filter (\<lambda>x. f x = k) (rev xs))"
    by (simp only: sort_key_stable)
  also have "\<dots> = filter (\<lambda>x. f x = k) xs"
    by (simp add: rev_filter)
  finally show ?thesis .
qed

text \<open>
  C6 at a table of two pages. Both photos are alice's; the gallery of application A reads
  the first page of the scan and shows one of them, where the same table in one page, and
  application B, show both, the later upload first.
\<close>

theorem gallery_first_page_only:
  "fst (gallery_A (Some ''alice'') example_stateA) =
     Inr (Render ''gallery.html'' [example_cat] ''alice'') \<and>
   rows (photos_tbl example_stateA) = [example_cat, example_dog] \<and>
   attr_eq ''username'' ''alice'' example_dog \<and>
   fst (gallery_A (Some ''alice'') example_stateA_one_page) =
     Inr (Render ''gallery.html'' [example_dog, example_cat] ''alice'') \<and>
   fst (gallery_B (Some ''alice'') example_stateB) =
     Inr (Render ''gallery.html'' [example_dog, example_cat] ''alice'')"
  by (simp add: app_eval example_states example_data less_eq_char_def less_char_def)

text \<open>
  C1 at the query \<^verbatim>\<open>c.t\<close> over the same photos. Application A looks for the three
  characters and finds nothing; application B hands them to the server as a pattern, whose
  dot matches the \<^verbatim>\<open>a\<close> of \<^verbatim>\<open>cat.png\<close>.
\<close>

theorem search_regex_divergence:
  "rows (photos_tbl example_stateA_one_page) = photos_col example_stateB \<and>
   fst (search_A (Some ''alice'') (Some ''c.t'') example_stateA_one_page) =
     Inr (Render ''search.html'' [] ''c.t'') \<and>
   fst (search_B simple_regex (Some ''alice'') (Some ''c.t'') example_stateB) =
     Inr (Render ''search.html'' [example_cat] ''c.t'')"
  by (simp add: app_eval example_states example_data)

text \<open>
  Where the two searches agree: a query of ASCII characters without metacharacters, over
  the same photos, in a table that one page holds.
\<close>

lemma parse_simple_literal:
  "set q \<inter> set metachars = {} \<Longrightarrow> list_all is_ascii q \<Longrightarrow> parse_simple q = Some (map Lit q)"
  by (induction q) (auto simp: metachars_def)

lemma match_here_literal: "match_here (map Lit q) s = starts_with (lower q) (lower s)"
proof (induction q arbitrary: s)
  case Nil
  then show ?case by (simp add: lower_def)
next
  case (Cons c q)
  then show ?case by (cases s) (simp_all add: lower_def)
qed

lemma regex_search_literal: "regex_search (map Lit q) s = py_in (lower q) (lower s)"
proof (induction s)
  case Nil
  then show ?case by (simp add: lower_def)
next
  case (Cons d s)
  have "match_here (map Lit q) (d # s) = starts_with (lower q) (lower (d # s))"
    by (rule match_here_literal)
  then show ?case using Cons by (simp add: lower_def)
qed

lemma regex_field_literal:
  assumes "q \<noteq> []"
  shows "regex_field (regex_search (map Lit q)) d field =
         py_in (lower q) (lower (get_default d field []))"
  using assms
  by (cases "map_of d field") (simp_all add: regex_field_def get_default_def regex_search_literal lower_def)

lemma search_agree_literal:
  assumes "set (strip (form_get arg)) \<inter> set metachars = {}"
    and "list_all is_ascii (strip (form_get arg))"
    and "length (rows (photos_tbl s)) \<le> page_len (photos_tbl s)"
    and "photos_col t = rows (photos_tbl s)"
  shows "photos_of (fst (search_B simple_regex (Some u) arg t)) =
         photos_of (fst (search_A (Some u) arg s))"
proof (cases "strip (form_get arg) = []")
  case True
  then show ?thesis by (simp add: search_A_def search_B_def lower_def photos_of_def)
next
  case False
  then have l: "lower (strip (form_get arg)) \<noteq> []" by (simp add: lower_def)
  have r: "simple_regex (strip (form_get arg)) = Matcher (regex_search (map Lit (strip (form_get arg))))"
    by (simp add: simple_regex_def parse_simple_literal [OF assms(1,2)])
  show ?thesis
    using False l
    by (simp add: search_A_def search_B_def photos_of_def r Let_def scan_one_page [OF assms(3)]
        assms(4) regex_field_literal matches_key conj_commute cong: conj_cong)
qed



subsection \<open>Download, delete and registration\<close>

lemma foreign_find_one:
  assumes "doc \<in> set col" "map_of doc ''photo_id'' = Some pid"
    "map_of doc ''username'' = Some owner" "owner \<noteq> requester"
    "unique_index ''photo_id'' col"
  shows "find_one col [(''photo_id'', pid), (''username'', requester)] = None"
proof -
  have "\<not> matches [(''photo_id'', pid), (''username'', requester)] d" if d: "d \<in> set col" for d
  proof
    assume m: "matches [(''photo_id'', pid), (''username'', requester)] d"
    then have "map_of d ''photo_id'' = map_of doc ''photo_id''"
      using assms(2) by (simp add: matches_def)
    then have "d = doc"
      using assms(1,5) d by (auto simp: unique_index_def distinct_map inj_on_def)
    then show False using m assms(3,4) by (simp add: matches_def)
  qed
  then show ?thesis by (simp add: find_one_def find_None_iff)
qed

lemma absent_find_one:
  assumes "find_one col [(''photo_id'', pid)] = None"
  shows "find_one col [(''photo_id'', pid), (''username'', requester)] = None"
  using assms by (auto simp: find_one_def find_None_iff matches_def)

text \<open>
  C8. A photo that exists under the identifier and belongs to another user is answered as
  an identifier that does not exist is: "Photo not found." and a redirect to the gallery.
  In both cases the only call to a store is the metadata read; the bucket and the photos
  are as before, so no blob is read or deleted and no metadata is deleted. This holds for
  download and delete in both applications (in B under the unique index on the identifier
  that the application declares).
\<close>

theorem foreign_photo_not_found:
  assumes "get_item (photos_tbl s) pid = Some item"
    and "map_of item ''username'' = Some owner"
    and "owner \<noteq> requester"
    and "get_item (photos_tbl s0) pid = None"
    and "doc \<in> set (photos_col t)"
    and "map_of doc ''photo_id'' = Some pid"
    and "map_of doc ''username'' = Some owner"
    and "unique_index ''photo_id'' (photos_col t)"
    and "find_one (photos_col t0) [(''photo_id'', pid)] = None"
  shows "download_A (Some requester) pid s =
           (Inr (Redirect ''gallery'' (Some PhotoNotFound)), log (DbGet ''photos'' pid) s) \<and>
         download_A (Some requester) pid s0 =
           (Inr (Redirect ''gallery'' (Some PhotoNotFound)), log (DbGet ''photos'' pid) s0) \<and>
         delete_A (Some requester) pid s =
           (Inr (Redirect ''gallery'' (Some PhotoNotFound)), log (DbGet ''photos'' pid) s) \<and>
         delete_A (Some requester) pid s0 =
           (Inr (Redirect ''gallery'' (Some PhotoNotFound)), log (DbGet ''photos'' pid) s0) \<and>
         download_B (Some requester) pid t =
           (Inr (Redirect ''gallery'' (Some PhotoNotFound)), log (DbGet ''photos'' pid) t) \<and>
         download_B (Some requester) pid t0 =
           (Inr (Redirect ''gallery'' (Some PhotoNotFound)), log (DbGet ''photos'' pid) t0) \<and>
         delete_B (Some requester) pid t =
           (Inr (Redirect ''gallery'' (Some PhotoNotFound)), log (DbGet ''photos'' pid) t) \<and>
         delete_B (Some requester) pid t0 =
           (Inr (Redirect ''gallery'' (Some PhotoNotFound)), log (DbGet ''photos'' pid) t0)"
proof -
  have b: "find_one (photos_col t) [(''photo_id'', pid), (''username'', requester)] = None"
    using assms(5,6,7,3,8) by (rule foreign_find_one)
  have b0: "find_one (photos_col t0) [(''photo_id'', pid), (''username'', requester)] = None"
    using assms(9) by (rule absent_find_one)
  show ?thesis
    using assms(1-4) b b0
    by (simp add: download_A_def delete_A_def download_B_def delete_B_def subscript_def Let_def)
qed

theorem foreign_photo_not_found_witness:
  "get_item (photos_tbl example_stateA) ''p1'' = Some example_cat \<and>
   map_of example_cat ''username'' = Some ''alice'' \<and> ''alice'' \<noteq> ''bob'' \<and>
   get_item (photos_tbl (example_stateA\<lparr>photos_tbl := example_photos_tbl\<lparr>rows := [example_dog]\<rparr>\<rparr>)) ''p1'' = None \<and>
   example_cat \<in> set (photos_col example_stateB) \<and>
   map_of example_cat ''photo_id'' = Some ''p1'' \<and>
   unique_index ''photo_id'' (photos_col example_stateB) \<and>
   find_one (photos_col (example_stateB\<lparr>photos_col := [example_dog]\<rparr>)) [(''photo_id'', ''p1'')] = None \<and>
   fst (download_A (Some ''bob'') ''p1'' example_stateA) = Inr (Redirect ''gallery'' (Some PhotoNotFound)) \<and>
   fst (download_A (Some ''bob'') ''p1'' (example_stateA\<lparr>photos_tbl := example_photos_tbl\<lparr>rows := [example_dog]\<rparr>\<rparr>)) =
     Inr (Redirect ''gallery'' (Some PhotoNotFound)) \<and>
   trace (snd (delete_A (Some ''bob'') ''p1'' example_stateA)) = [DbGet ''photos'' ''p1''] \<and>
   fst (delete_B (Some ''bob'') ''p1'' example_stateB) = Inr (Redirect ''gallery'' (Some PhotoNotFound)) \<and>
   snd (delete_B (Some ''bob'') ''p1'' example_stateB) = log (DbGet ''photos'' ''p1'') example_stateB"
proof -
  have h1: "get_item (photos_tbl example_stateA) ''p1'' = Some example_cat"
    by (simp add: get_item_def attr_eq_def example_stateA_def example_data)
  have h2: "map_of example_cat ''username'' = Some ''alice''" by (simp add: example_data)
  have h3: "''alice'' \<noteq> ''bob''" by simp
  have h4: "get_item (photos_tbl (example_stateA\<lparr>photos_tbl := example_photos_tbl\<lparr>rows := [example_dog]\<rparr>\<rparr>)) ''p1'' = None"
    by (simp add: get_item_def attr_eq_def example_stateA_def example_data)
  have h5: "example_cat \<in> set (photos_col example_stateB)" by (simp add: example_stateB_def)
  have h6: "map_of example_cat ''photo_id'' = Some ''p1''" by (simp add: example_data)
  have h8: "unique_index ''photo_id'' (photos_col example_stateB)"
    by (simp add: unique_index_def example_stateB_def example_data)
  have h9: "find_one (photos_col (example_stateB\<lparr>photos_col := [example_dog]\<rparr>)) [(''photo_id'', ''p1'')] = None"
    by (simp add: find_one_def matches_def example_data)
  show ?thesis
    using foreign_photo_not_found [OF h1 h2 h3 h4 h5 h6 h2 h8 h9] h1 h2 h4 h5 h6 h8 h9
    by (simp add: log_def example_stateA_def)
qed

lemma count_users_unique:
  assumes "unique_index ''username'' xs"
  shows "count_users u xs \<le> 1"
  using assms
proof (induction xs)
  case Nil
  then show ?case by (simp add: count_users_def)
next
  case (Cons x xs)
  show ?case
  proof (cases "attr_eq ''username'' u x")
    case True
    then have "\<forall>y\<in>set xs. \<not> attr_eq ''username'' u y"
      using Cons.prems by (auto simp: unique_index_def attr_eq_def image_iff)
    then have "filter (attr_eq ''username'' u) xs = []"
      by (simp add: filter_empty_conv)
    then show ?thesis using True by (simp add: count_users_def)
  next
    case False
    then show ?thesis using Cons by (simp add: count_users_def unique_index_def)
  qed
qed

lemma find_None_fresh:
  assumes "find (attr_eq field v) xs = None" "map_of d field = Some v" "unique_index field xs"
  shows "unique_index field (xs @ [d])"
  using assms by (auto simp: unique_index_def find_None_iff attr_eq_def image_iff)

lemma find_None_fresh_at:
  assumes "find (attr_eq field v) xs = None" "map_of d field = Some v" "unique_index field xs"
  shows "unique_index field (take n xs @ d # drop n xs)"
proof -
  have "distinct (map (\<lambda>d. map_of d field) (take n xs @ drop n xs))"
    using assms(3) by (simp add: unique_index_def)
  then have parts: "distinct (map (\<lambda>d. map_of d field) (take n xs))"
    "distinct (map (\<lambda>d. map_of d field) (drop n xs))"
    "(\<lambda>d. map_of d field) ` set (take n xs) \<inter> (\<lambda>d. map_of d field) ` set (drop n xs) = {}"
    by (simp_all only: map_append distinct_append set_map)
  have new: "map_of d field \<noteq> map_of x field" if x: "x \<in> set xs" for x
    using assms(1,2) x by (auto simp: find_None_iff attr_eq_def)
  show ?thesis
    using parts new by (auto simp: unique_index_def dest: in_set_takeD in_set_dropD)
qed

lemma register_A_inv:
  assumes "tables_ok s" "unique_index ''username'' (rows (users_tbl s))"
  shows "tables_ok (snd (register_A env meth form s)) \<and>
         unique_index ''username'' (rows (users_tbl (snd (register_A env meth form s))))"
proof -
  let ?u = "strip (form_username form)"
  have k: "key_attr (users_tbl s) = ''username''" using assms(1) by (simp add: tables_ok_def)
  show ?thesis
  proof (cases "meth = POST \<and> ?u \<noteq> [] \<and> strip (form_password form) \<noteq> [] \<and>
                get_item (users_tbl s) ?u = None")
    case True
    then have f: "find (attr_eq ''username'' ?u) (rows (users_tbl s)) = None"
      by (simp add: get_item_def k)
    have "unique_index ''username''
            (take (slot (users_tbl s) ?u (rows (users_tbl s))) (rows (users_tbl s)) @
             user_item ?u (pw env (strip (form_password form))) (strip (form_get (form_email form)))
               (utcnow env (tick s)) #
             drop (slot (users_tbl s) ?u (rows (users_tbl s))) (rows (users_tbl s)))"
      using f _ assms(2) by (rule find_None_fresh_at) (simp add: user_item_def)
    then show ?thesis
      using True assms(1)
      by (simp add: register_A_def put_item_def user_item_def k Let_def log_def tables_ok_def)
  next
    case False
    then show ?thesis
      using assms by (auto simp: register_A_def Let_def log_def tables_ok_def)
  qed
qed

lemma register_B_inv:
  assumes "unique_index ''username'' (users_col t)"
  shows "unique_index ''username'' (users_col (snd (register_B env meth form t)))"
proof -
  let ?u = "strip (form_username form)"
  let ?d = "user_item ?u (pw env (strip (form_password form))) (strip (form_get (form_email form)))
               (utcnow env (tick t))"
  show ?thesis
  proof (cases "meth = POST \<and> ?u \<noteq> [] \<and> strip (form_password form) \<noteq> [] \<and>
                find_one (users_col t) [(''username'', ?u)] = None")
    case True
    then have f: "find (attr_eq ''username'' ?u) (users_col t) = None"
      by (simp add: find_one_def matches_key)
    have u: "unique_index ''username'' (users_col t @ [?d])"
      using f _ assms by (rule find_None_fresh) (simp add: user_item_def)
    show ?thesis
      using True u assms
      by (simp add: register_B_def insert_one_def Let_def log_def split: if_splits)
  next
    case False
    then show ?thesis
      using assms by (auto simp: register_B_def Let_def log_def)
  qed
qed

lemma registers_A_inv:
  "tables_ok s \<Longrightarrow> unique_index ''username'' (rows (users_tbl s)) \<Longrightarrow>
   unique_index ''username'' (rows (users_tbl (registers_A env forms s)))"
proof (induction forms arbitrary: s)
  case Nil
  then show ?case by simp
next
  case (Cons form forms)
  then show ?case using register_A_inv [of s env POST form] by simp
qed

lemma registers_B_inv:
  "unique_index ''username'' (users_col t) \<Longrightarrow>
   unique_index ''username'' (users_col (registers_B env forms t))"
proof (induction forms arbitrary: t)
  case Nil
  then show ?case by simp
next
  case (Cons form forms)
  then show ?case using register_B_inv [of t env POST form] by simp
qed

text \<open>
  C4. A registration that passes the check of its fields and names a user who is in the
  store is answered "Username already taken." and changes nothing but the log of calls:
  users, photos and bucket are as before. After any run of registrations that starts from
  a store without two users of one name, no name has more than one user record. Both hold
  in both applications.
\<close>

theorem create_user_conflict:
  assumes "strip (form_username form) \<noteq> []" and "strip (form_password form) \<noteq> []"
    and "get_item (users_tbl s) (strip (form_username form)) \<noteq> None"
    and "find_one (users_col t) [(''username'', strip (form_username form))] \<noteq> None"
    and "tables_ok s0" and "unique_index ''username'' (rows (users_tbl s0))"
    and "unique_index ''username'' (users_col t0)"
  shows "register_A env POST form s =
           (Inr (Redirect ''register'' (Some UsernameTaken)),
            log (DbGet ''users'' (strip (form_username form))) s) \<and>
         register_B env POST form t =
           (Inr (Redirect ''register'' (Some UsernameTaken)),
            log (DbGet ''users'' (strip (form_username form))) t) \<and>
         count_users u (rows (users_tbl (registers_A env forms s0))) \<le> 1 \<and>
         count_users u (users_col (registers_B env forms t0)) \<le> 1"
proof (intro conjI)
  show "register_A env POST form s =
           (Inr (Redirect ''register'' (Some UsernameTaken)),
            log (DbGet ''users'' (strip (form_username form))) s)"
    using assms(1-3) by (simp add: register_A_def Let_def)
  show "register_B env POST form t =
           (Inr (Redirect ''register'' (Some UsernameTaken)),
            log (DbGet ''users'' (strip (form_username form))) t)"
    using assms(1,2,4) by (simp add: register_B_def Let_def)
  show "count_users u (rows (users_tbl (registers_A env forms s0))) \<le> 1"
    using assms(5,6) by (intro count_users_unique registers_A_inv)
  show "count_users u (users_col (registers_B env forms t0)) \<le> 1"
    using assms(7) by (intro count_users_unique registers_B_inv)
qed

theorem create_user_conflict_witness:
  "strip (form_username \<lparr>form_username = '' alice '', form_password = ''pw1'', form_email = None\<rparr>) \<noteq> [] \<and>
   get_item (users_tbl example_stateA) ''alice'' \<noteq> None \<and>
   find_one (users_col example_stateB) [(''username'', ''alice'')] \<noteq> None \<and>
   tables_ok example_stateA \<and>
   unique_index ''username'' (rows (users_tbl example_stateA)) \<and>
   unique_index ''username'' (users_col example_stateB) \<and>
   register_A example_env POST
       \<lparr>form_username = '' alice '', form_password = ''pw1'', form_email = None\<rparr> example_stateA =
     (Inr (Redirect ''register'' (Some UsernameTaken)), log (DbGet ''users'' ''alice'') example_stateA) \<and>
   register_B example_env POST
       \<lparr>form_username = '' alice '', form_password = ''pw1'', form_email = None\<rparr> example_stateB =
     (Inr (Redirect ''register'' (Some UsernameTaken)), log (DbGet ''users'' ''alice'') example_stateB) \<and>
   count_users ''dave''
     (rows (users_tbl (registers_A example_env
        [\<lparr>form_username = ''dave'', form_password = ''x'', form_email = None\<rparr>,
         \<lparr>form_username = ''dave'', form_password = ''y'', form_email = Some ''d@x.org''\<rparr>]
        example_stateA))) \<le> 1 \<and>
   count_users ''dave''
     (users_col (registers_B example_env
        [\<lparr>form_username = ''dave'', form_password = ''x'', form_email = None\<rparr>,
         \<lparr>form_username = ''dave'', form_password = ''y'', form_email = Some ''d@x.org''\<rparr>]
        example_stateB)) \<le> 1"
proof -
  let ?form = "\<lparr>form_username = '' alice '', form_password = ''pw1'', form_email = None\<rparr>"
  have s: "strip '' alice '' = ''alice''" "strip ''pw1'' = ''pw1''"
    by (simp_all add: strip_def is_space_def)
  have h1: "strip (form_username ?form) \<noteq> []" "strip (form_password ?form) \<noteq> []"
    by (simp_all add: s)
  have h3: "get_item (users_tbl example_stateA) (strip (form_username ?form)) \<noteq> None"
    by (simp add: s get_item_def attr_eq_def example_stateA_def example_data)
  have h4: "find_one (users_col example_stateB) [(''username'', strip (form_username ?form))] \<noteq> None"
    by (simp add: s find_one_def matches_def example_stateB_def example_data)
  have h5: "tables_ok example_stateA"
    by (simp add: tables_ok_def example_stateA_def example_data)
  have h6: "unique_index ''username'' (rows (users_tbl example_stateA))"
    by (simp add: unique_index_def example_stateA_def example_data)
  have h7: "unique_index ''username'' (users_col example_stateB)"
    by (simp add: unique_index_def example_stateB_def example_data)
  show ?thesis
    using create_user_conflict [OF h1 h3 h4 h5 h6 h7, where env = example_env and u = "''dave''"
        and forms = "[\<lparr>form_username = ''dave'', form_password = ''x'', form_email = None\<rparr>,
         \<lparr>form_username = ''dave'', form_password = ''y'', form_email = Some ''d@x.org''\<rparr>]"]
      h1 h3 h4 h5 h6 h7
    by (simp add: s del: registers_A.simps registers_B.simps)
qed

text \<open>
  White space beyond ASCII is stripped as well: a password that is a no-break space counts
  as missing, before any call to a store, and a user name followed by a no-break space is
  the user name.
\<close>

lemma register_no_break_space:
  "register_A example_env POST
     \<lparr>form_username = ''alice'', form_password = [CHR 0xA0], form_email = None\<rparr> example_stateA =
     (Inr (Redirect ''register'' (Some RequiredFields)), example_stateA)"
  "register_B example_env POST
     \<lparr>form_username = ''alice'', form_password = [CHR 0xA0], form_email = None\<rparr> example_stateB =
     (Inr (Redirect ''register'' (Some RequiredFields)), example_stateB)"
  "register_A example_env POST
     \<lparr>form_username = ''alice'' @ [CHR 0xA0], form_password = ''pw1'', form_email = None\<rparr>
     example_stateA =
     (Inr (Redirect ''register'' (Some UsernameTaken)), log (DbGet ''users'' ''alice'') example_stateA)"
  "register_B example_env POST
     \<lparr>form_username = ''alice'' @ [CHR 0x85], form_password = ''pw1'', form_email = None\<rparr>
     example_stateB =
     (Inr (Redirect ''register'' (Some UsernameTaken)), log (DbGet ''users'' ''alice'') example_stateB)"
  by (simp_all add: register_A_def register_B_def Let_def strip_def is_space_def get_item_def
      find_one_def matches_def attr_eq_def example_stateA_def example_stateB_def example_data)

subsection \<open>Upload\<close>


lemma rsplit_dot_parts:
  assumes "CHR ''.'' \<notin> set ext"
  shows "rsplit_dot (stem @ ''.'' @ ext) = [stem, ext]"
proof -
  have t: "takeWhile (\<lambda>c. c \<noteq> CHR ''.'') (rev ext @ CHR ''.'' # rev stem) = rev ext"
    using assms by (subst takeWhile_append2) auto
  have d: "dropWhile (\<lambda>c. c \<noteq> CHR ''.'') (rev ext @ CHR ''.'' # rev stem) = CHR ''.'' # rev stem"
    using assms by (subst dropWhile_append2) auto
  show ?thesis by (simp add: rsplit_dot_def t d)
qed

lemma ok_file_iff:
  "ok_file name \<longleftrightarrow>
   (\<exists>stem ext. name = stem @ ''.'' @ ext \<and> CHR ''.'' \<notin> set ext \<and> lower ext \<in> ALLOWED_EXT)"
proof
  assume ok: "ok_file name"
  then have "CHR ''.'' \<in> set name" by (simp add: ok_file_def)
  then obtain stem ext where n: "name = stem @ CHR ''.'' # ext" "CHR ''.'' \<notin> set ext"
    by (auto dest: split_list_last)
  then have "rsplit_dot name = [stem, ext]"
    using rsplit_dot_parts [of ext stem] by simp
  then have "lower ext \<in> ALLOWED_EXT" using ok by (simp add: ok_file_def)
  then show "\<exists>stem ext. name = stem @ ''.'' @ ext \<and> CHR ''.'' \<notin> set ext \<and> lower ext \<in> ALLOWED_EXT"
    using n by auto
next
  assume "\<exists>stem ext. name = stem @ ''.'' @ ext \<and> CHR ''.'' \<notin> set ext \<and> lower ext \<in> ALLOWED_EXT"
  then obtain stem ext where n: "name = stem @ ''.'' @ ext" "CHR ''.'' \<notin> set ext"
    "lower ext \<in> ALLOWED_EXT" by blast
  then show "ok_file name"
    using rsplit_dot_parts [of ext stem] by (simp add: ok_file_def)
qed

lemma upload_fileobj_fields:
  "trace (upload_fileobj k b s) = trace s @ [S3Put k]" "tick (upload_fileobj k b s) = tick s"
  "photos_tbl (upload_fileobj k b sa) = photos_tbl sa" "users_tbl (upload_fileobj k b sa) = users_tbl sa"
  "photos_col (upload_fileobj k b sb) = photos_col sb" "users_col (upload_fileobj k b sb) = users_col sb"
  by (simp_all add: upload_fileobj_def log_def)

lemma ok_file_nonempty: "ok_file name \<Longrightarrow> name \<noteq> []"
  by (auto simp: ok_file_def)

lemma ALLOWED_EXT_B_eq: "ALLOWED_EXT_B = ALLOWED_EXT"
  by (simp add: ALLOWED_EXT_B_def ALLOWED_EXT_def)

lemma ok_file_B_eq: "ok_file_B name = ok_file name"
  unfolding ok_file_B_def ok_file_def ALLOWED_EXT_B_eq ..

lemma find_insert_other:
  "\<not> Q d \<Longrightarrow> find Q (take n xs @ d # drop n xs) = find Q xs"
proof -
  assume q: "\<not> Q d"
  have "find Q (take n xs @ d # drop n xs) =
        (case find Q (take n xs) of None \<Rightarrow> find Q (d # drop n xs) | Some x \<Rightarrow> Some x)"
    by (rule find_append)
  also have "\<dots> = (case find Q (take n xs) of None \<Rightarrow> find Q (drop n xs) | Some x \<Rightarrow> Some x)"
    using q by (cases "find Q (take n xs)") simp_all
  also have "\<dots> = find Q (take n xs @ drop n xs)"
    by (rule find_append [symmetric])
  finally show ?thesis by simp
qed

lemma find_insert_new:
  "Q d \<Longrightarrow> find Q xs = None \<Longrightarrow> find Q (take n xs @ d # drop n xs) = Some d"
proof -
  assume q: "Q d" and n: "find Q xs = None"
  then have "find Q (take n xs) = None"
    by (auto simp: find_None_iff dest: in_set_takeD)
  then show ?thesis using q by (simp add: find_append)
qed

lemma put_item_effect:
  assumes "map_of it (key_attr t) = Some k"
  shows "\<exists>t'. put_item t it = Inr t' \<and> key_attr t' = key_attr t \<and>
              get_item t' k = Some it \<and> (\<forall>p. p \<noteq> k \<longrightarrow> get_item t' p = get_item t p)"
proof (cases "get_item t k")
  case None
  let ?t' = "t\<lparr>rows := take (slot t k (rows t)) (rows t) @ it # drop (slot t k (rows t)) (rows t)\<rparr>"
  have p: "put_item t it = Inr ?t'" using assms None by (simp add: put_item_def)
  have g: "get_item ?t' k = Some it"
    using None assms by (simp add: get_item_def find_insert_new attr_eq_def)
  have o: "get_item ?t' p = get_item t p" if "p \<noteq> k" for p
    using that assms by (simp add: get_item_def find_insert_other attr_eq_def)
  show ?thesis using p g o by simp
next
  case (Some d)
  let ?t' = "t\<lparr>rows := replace_first (attr_eq (key_attr t) k) it (rows t)\<rparr>"
  have p: "put_item t it = Inr ?t'" using assms Some by (simp add: put_item_def)
  have "find (attr_eq (key_attr t) k) (replace_first (attr_eq (key_attr t) k) it (rows t)) = Some it"
    using Some assms by (intro find_replace_first_same [where d = d]) (simp_all add: attr_eq_def get_item_def)
  then have g: "get_item ?t' k = Some it" by (simp add: get_item_def)
  have o: "get_item ?t' p = get_item t p" if "p \<noteq> k" for p
  proof -
    have "find (attr_eq (key_attr t) p) (replace_first (attr_eq (key_attr t) k) it (rows t)) =
          find (attr_eq (key_attr t) p) (rows t)"
      using that assms by (intro find_replace_first_other) (auto simp: attr_eq_def)
    then show ?thesis by (simp add: get_item_def)
  qed
  show ?thesis using p g o by simp
qed

lemma new_photo_id: "map_of (new_photo env u tags desc n f) ''photo_id'' = Some (uuid4 env n)"
  by (simp add: new_photo_def photo_item_def)

lemma write_photo_A_effect:
  assumes "tables_ok s"
  shows "bucket (write_photo_A env u tags desc s f) (blob_key env u (tick s) f) = Some (stream f)"
    and "\<forall>k. k \<noteq> blob_key env u (tick s) f \<longrightarrow> bucket (write_photo_A env u tags desc s f) k = bucket s k"
    and "get_item (photos_tbl (write_photo_A env u tags desc s f)) (uuid4 env (tick s)) =
         Some (new_photo env u tags desc (tick s) f)"
    and "\<forall>p. p \<noteq> uuid4 env (tick s) \<longrightarrow>
           get_item (photos_tbl (write_photo_A env u tags desc s f)) p = get_item (photos_tbl s) p"
    and "users_tbl (write_photo_A env u tags desc s f) = users_tbl s"
    and "trace (write_photo_A env u tags desc s f) =
         trace s @ [S3Put (blob_key env u (tick s) f), DbPut ''photos'' (uuid4 env (tick s))]"
    and "tick (write_photo_A env u tags desc s f) = Suc (tick s)"
    and "tables_ok (write_photo_A env u tags desc s f)"
proof -
  have "map_of (new_photo env u tags desc (tick s) f) (key_attr (photos_tbl s)) = Some (uuid4 env (tick s))"
    using assms by (simp add: tables_ok_def new_photo_id)
  then obtain t' where t': "put_item (photos_tbl s) (new_photo env u tags desc (tick s) f) = Inr t'"
    "key_attr t' = key_attr (photos_tbl s)"
    "get_item t' (uuid4 env (tick s)) = Some (new_photo env u tags desc (tick s) f)"
    "\<forall>p. p \<noteq> uuid4 env (tick s) \<longrightarrow> get_item t' p = get_item (photos_tbl s) p"
    using put_item_effect by blast
  show "bucket (write_photo_A env u tags desc s f) (blob_key env u (tick s) f) = Some (stream f)"
    and "\<forall>k. k \<noteq> blob_key env u (tick s) f \<longrightarrow> bucket (write_photo_A env u tags desc s f) k = bucket s k"
    and "get_item (photos_tbl (write_photo_A env u tags desc s f)) (uuid4 env (tick s)) =
         Some (new_photo env u tags desc (tick s) f)"
    and "\<forall>p. p \<noteq> uuid4 env (tick s) \<longrightarrow>
           get_item (photos_tbl (write_photo_A env u tags desc s f)) p = get_item (photos_tbl s) p"
    and "users_tbl (write_photo_A env u tags desc s f) = users_tbl s"
    and "trace (write_photo_A env u tags desc s f) =
         trace s @ [S3Put (blob_key env u (tick s) f), DbPut ''photos'' (uuid4 env (tick s))]"
    and "tick (write_photo_A env u tags desc s f) = Suc (tick s)"
    and "tables_ok (write_photo_A env u tags desc s f)"
    using t' assms by (simp_all add: write_photo_A_def tables_ok_def)
qed

lemma write_state_A:
  "log (DbPut ''photos'' pid) ((upload_fileobj key body s)\<lparr>tick := n, photos_tbl := t\<rparr>) =
   s\<lparr>bucket := (bucket s)(key \<mapsto> body), trace := trace s @ [S3Put key, DbPut ''photos'' pid],
     tick := n, photos_tbl := t\<rparr>"
  by (cases s) (simp add: upload_fileobj_def log_def)

lemma write_state_B:
  "log (DbPut ''photos'' pid) ((upload_fileobj key body s)\<lparr>tick := n, photos_col := c\<rparr>) =
   s\<lparr>bucket := (bucket s)(key \<mapsto> body), trace := trace s @ [S3Put key, DbPut ''photos'' pid],
     tick := n, photos_col := c\<rparr>"
  by (cases s) (simp add: upload_fileobj_def log_def)

lemma upload_step_A:
  assumes "tables_ok s" "ok_file (filename f)"
  shows "upload_files_A env u tags desc (f # fs) count s =
         upload_files_A env u tags desc fs (count + 1) (write_photo_A env u tags desc s f)"
proof -
  have "map_of (new_photo env u tags desc (tick s) f) (key_attr (photos_tbl s)) = Some (uuid4 env (tick s))"
    using assms(1) by (simp add: tables_ok_def new_photo_id)
  then obtain t' where t': "put_item (photos_tbl s) (new_photo env u tags desc (tick s) f) = Inr t'"
    using put_item_effect by blast
  then have t'': "put_item (photos_tbl s)
      (photo_item (uuid4 env (tick s)) u (secure_filename env (filename f))
         (''photos/'' @ u @ ''/'' @ uuid4 env (tick s) @ ''_'' @ secure_filename env (filename f))
         tags desc (utcnow env (tick s))) = Inr t'"
    by (simp add: new_photo_def blob_key_def)
  show ?thesis
    using assms(2) t' t''
    by (simp add: Let_def ok_file_nonempty write_photo_A_def write_state_A upload_fileobj_fields
        blob_key_def)
qed

lemma upload_files_A_run:
  "tables_ok s \<Longrightarrow>
   upload_files_A env u tags desc files count s =
     (Inr (count + accepted files),
      foldl (write_photo_A env u tags desc) s (filter (\<lambda>f. ok_file (filename f)) files))"
proof (induction files arbitrary: count s)
  case Nil
  then show ?case by (simp add: accepted_def)
next
  case (Cons f fs)
  show ?case
  proof (cases "ok_file (filename f)")
    case False
    then show ?thesis using Cons.IH [OF Cons.prems, of count] by (simp add: accepted_def)
  next
    case True
    have "tables_ok (write_photo_A env u tags desc s f)"
      using Cons.prems by (rule write_photo_A_effect)
    then show ?thesis
      using Cons.IH [of "write_photo_A env u tags desc s f" "count + 1"] True
      by (simp add: upload_step_A [OF Cons.prems True] accepted_def del: upload_files_A.simps)
  qed
qed

lemma upload_trace_A:
  "tables_ok s \<Longrightarrow>
   trace (foldl (write_photo_A env u tags desc) s (filter (\<lambda>f. ok_file (filename f)) files)) =
     trace s @ upload_events env u (tick s) files"
proof (induction files arbitrary: s)
  case Nil
  then show ?case by simp
next
  case (Cons f fs)
  show ?case
  proof (cases "ok_file (filename f)")
    case False
    then show ?thesis using Cons.IH [OF Cons.prems] by simp
  next
    case True
    note e = write_photo_A_effect [OF Cons.prems, where env = env and u = u and tags = tags
        and desc = desc and f = f]
    show ?thesis
      using Cons.IH [OF e(8)] True by (simp add: e(6,7) blob_key_def)
  qed
qed


lemma write_photo_B_effect:
  shows "bucket (write_photo_B env u tags desc t f) (blob_key env u (tick t) f) = Some (stream f)"
    and "\<forall>k. k \<noteq> blob_key env u (tick t) f \<longrightarrow> bucket (write_photo_B env u tags desc t f) k = bucket t k"
    and "photos_col (write_photo_B env u tags desc t f) =
         photos_col t @ [new_photo env u tags desc (tick t) f]"
    and "users_col (write_photo_B env u tags desc t f) = users_col t"
    and "trace (write_photo_B env u tags desc t f) =
         trace t @ [S3Put (blob_key env u (tick t) f), DbPut ''photos'' (uuid4 env (tick t))]"
    and "tick (write_photo_B env u tags desc t f) = Suc (tick t)"
  by (simp_all add: write_photo_B_def)

lemma write_photo_B_found:
  assumes "find (attr_eq ''photo_id'' (uuid4 env (tick t))) (photos_col t) = None"
  shows "find_one (photos_col (write_photo_B env u tags desc t f)) [(''photo_id'', uuid4 env (tick t))] =
         Some (new_photo env u tags desc (tick t) f)"
    and "\<forall>p. p \<noteq> uuid4 env (tick t) \<longrightarrow>
           find_one (photos_col (write_photo_B env u tags desc t f)) [(''photo_id'', p)] =
           find_one (photos_col t) [(''photo_id'', p)]"
  using assms
  by (auto simp: write_photo_B_def find_one_def matches_key find_append attr_eq_def new_photo_id
      split: option.splits)

lemma upload_step_B:
  assumes "find (attr_eq ''photo_id'' (uuid4 env (tick t))) (photos_col t) = None"
    and "ok_file (filename f)"
  shows "upload_files_B env u tags desc (f # fs) count t =
         upload_files_B env u tags desc fs (count + 1) (write_photo_B env u tags desc t f)"
proof -
  let ?it = "photo_item (uuid4 env (tick t)) u (secure_filename env (filename f))
         (''photos/'' @ u @ ''/'' @ uuid4 env (tick t) @ ''_'' @ secure_filename env (filename f))
         tags desc (utcnow env (tick t))"
  have "\<not> list_ex (\<lambda>e. map_of e ''photo_id'' = map_of ?it ''photo_id'') (photos_col t)"
    using assms(1) by (auto simp: find_None_iff attr_eq_def photo_item_def list_ex_iff)
  then have ins: "insert_one ''photo_id'' (photos_col t) ?it = Inr (photos_col t @ [?it])"
    by (simp add: insert_one_def)
  show ?thesis
    using assms(2) ins
    by (simp add: Let_def ok_file_nonempty ok_file_B_eq write_photo_B_def write_state_B
        upload_fileobj_fields blob_key_def new_photo_def)
qed

lemma upload_files_B_run:
  "inj (uuid4 env) \<Longrightarrow>
   \<forall>n\<ge>tick t. find (attr_eq ''photo_id'' (uuid4 env n)) (photos_col t) = None \<Longrightarrow>
   upload_files_B env u tags desc files count t =
     (Inr (count + accepted files),
      foldl (write_photo_B env u tags desc) t (filter (\<lambda>f. ok_file (filename f)) files))"
proof (induction files arbitrary: count t)
  case Nil
  then show ?case by (simp add: accepted_def)
next
  case (Cons f fs)
  show ?case
  proof (cases "ok_file (filename f)")
    case False
    then show ?thesis using Cons.IH [OF Cons.prems, of count]
      by (simp add: accepted_def ok_file_B_eq)
  next
    case True
    let ?t2 = "write_photo_B env u tags desc t f"
    have now: "find (attr_eq ''photo_id'' (uuid4 env (tick t))) (photos_col t) = None"
      using Cons.prems(2) by simp
    have fresh: "\<forall>n\<ge>tick ?t2. find (attr_eq ''photo_id'' (uuid4 env n)) (photos_col ?t2) = None"
    proof (intro allI impI)
      fix n assume n: "tick ?t2 \<le> n"
      then have "tick t \<le> n" "n \<noteq> tick t" by (simp_all add: write_photo_B_effect)
      then have "find (attr_eq ''photo_id'' (uuid4 env n)) (photos_col t) = None"
        "uuid4 env n \<noteq> uuid4 env (tick t)"
        using Cons.prems by (auto dest: injD)
      then show "find (attr_eq ''photo_id'' (uuid4 env n)) (photos_col ?t2) = None"
        by (simp add: write_photo_B_effect find_append attr_eq_def new_photo_id)
    qed
    show ?thesis
      using Cons.IH [OF Cons.prems(1) fresh, of "count + 1"] True
      by (simp add: upload_step_B [OF now True] accepted_def del: upload_files_B.simps)
  qed
qed

lemma upload_trace_B:
  "trace (foldl (write_photo_B env u tags desc) t (filter (\<lambda>f. ok_file (filename f)) files)) =
     trace t @ upload_events env u (tick t) files"
proof (induction files arbitrary: t)
  case Nil
  then show ?case by simp
next
  case (Cons f fs)
  show ?case
  proof (cases "ok_file (filename f)")
    case False
    then show ?thesis using Cons.IH by simp
  next
    case True
    show ?thesis
      using Cons.IH [of "write_photo_B env u tags desc t f"] True
      by (simp add: write_photo_B_effect blob_key_def)
  qed
qed

lemma upload_none_A:
  "list_all (\<lambda>f. \<not> ok_file (filename f)) files \<Longrightarrow>
   upload_files_A env u tags desc files count s = (Inr count, s)"
  by (induction files) simp_all

lemma upload_none_B:
  "list_all (\<lambda>f. \<not> ok_file (filename f)) files \<Longrightarrow>
   upload_files_B env u tags desc files count t = (Inr count, t)"
  by (induction files) (simp_all add: ok_file_B_eq)

lemma upload_none:
  assumes "list_all (\<lambda>f. \<not> ok_file (filename f)) files"
  shows "snd (upload_A env POST (Some u) files tags desc s) = s"
    and "snd (upload_B env POST (Some u) files tags desc t) = t"
  using upload_none_A [OF assms] upload_none_B [OF assms]
  by (cases files; simp add: upload_A_def upload_B_def del: upload_files_A.simps upload_files_B.simps)+

text \<open>
  C10, as the code has it. The check of a file name holds exactly when the name has a dot
  and the text after its last dot, in lower case, is one of the six extensions, and the
  check of application B is the same predicate. A submission without a file, or whose
  first file has an empty name, is answered "No files selected." and leaves the state as
  it was, whatever its other files are. For any other submission the count reported is the
  number of files that pass the check, and the state left is the state after the two
  writes for each file that passes, in the order of the files, and nothing else: a file
  that fails the check changes neither the bucket nor the photos nor the log of calls, and
  raises no error; in particular a submission without a passing file leaves the state as
  it was. The two writes for a file store its content in the bucket under its key, where
  it can be read back, and its photo item in the metadata store, where it is found under
  its identifier; other keys and other identifiers read as before, and the log of calls
  grows by the blob write and the metadata write. In application B this is under
  identifiers that are new to the collection.
\<close>

theorem upload_accepts_by_extension:
  assumes "tables_ok s" and "inj (uuid4 env)"
    and "\<forall>n\<ge>tick t. find (attr_eq ''photo_id'' (uuid4 env n)) (photos_col t) = None"
  shows "(ok_file name \<longleftrightarrow>
            (\<exists>stem ext. name = stem @ ''.'' @ ext \<and> CHR ''.'' \<notin> set ext \<and>
                        lower ext \<in> ALLOWED_EXT)) \<and>
         ok_file_B name = ok_file name \<and>
         (files = [] \<or> filename (hd files) = [] \<longrightarrow>
            upload_A env POST (Some u) files tags desc s =
              (Inr (Redirect ''upload'' (Some NoFilesSelected)), s) \<and>
            upload_B env POST (Some u) files tags desc t =
              (Inr (Redirect ''upload'' (Some NoFilesSelected)), t)) \<and>
         (files \<noteq> [] \<and> filename (hd files) \<noteq> [] \<longrightarrow>
            upload_A env POST (Some u) files tags desc s =
              (Inr (Redirect ''gallery'' (Some (Uploaded (accepted files)))),
               foldl (write_photo_A env u (strip (form_get tags)) (strip (form_get desc))) s
                 (filter (\<lambda>f. ok_file (filename f)) files)) \<and>
            upload_B env POST (Some u) files tags desc t =
              (Inr (Redirect ''gallery'' (Some (Uploaded (accepted files)))),
               foldl (write_photo_B env u (strip (form_get tags)) (strip (form_get desc))) t
                 (filter (\<lambda>f. ok_file (filename f)) files))) \<and>
         trace (foldl (write_photo_A env u tg ds) s (filter (\<lambda>f. ok_file (filename f)) files)) =
           trace s @ upload_events env u (tick s) files \<and>
         trace (foldl (write_photo_B env u tg ds) t (filter (\<lambda>f. ok_file (filename f)) files)) =
           trace t @ upload_events env u (tick t) files \<and>
         (list_all (\<lambda>f. \<not> ok_file (filename f)) files \<longrightarrow>
            snd (upload_A env POST (Some u) files tags desc s) = s \<and>
            snd (upload_B env POST (Some u) files tags desc t) = t) \<and>
         (tables_ok s1 \<longrightarrow>
            bucket (write_photo_A env u tg ds s1 f) (blob_key env u (tick s1) f) = Some (stream f) \<and>
            (\<forall>k. k \<noteq> blob_key env u (tick s1) f \<longrightarrow>
                 bucket (write_photo_A env u tg ds s1 f) k = bucket s1 k) \<and>
            get_item (photos_tbl (write_photo_A env u tg ds s1 f)) (uuid4 env (tick s1)) =
              Some (new_photo env u tg ds (tick s1) f) \<and>
            (\<forall>p. p \<noteq> uuid4 env (tick s1) \<longrightarrow>
                 get_item (photos_tbl (write_photo_A env u tg ds s1 f)) p = get_item (photos_tbl s1) p) \<and>
            users_tbl (write_photo_A env u tg ds s1 f) = users_tbl s1) \<and>
         (find (attr_eq ''photo_id'' (uuid4 env (tick t1))) (photos_col t1) = None \<longrightarrow>
            bucket (write_photo_B env u tg ds t1 f) (blob_key env u (tick t1) f) = Some (stream f) \<and>
            (\<forall>k. k \<noteq> blob_key env u (tick t1) f \<longrightarrow>
                 bucket (write_photo_B env u tg ds t1 f) k = bucket t1 k) \<and>
            find_one (photos_col (write_photo_B env u tg ds t1 f)) [(''photo_id'', uuid4 env (tick t1))] =
              Some (new_photo env u tg ds (tick t1) f) \<and>
            (\<forall>p. p \<noteq> uuid4 env (tick t1) \<longrightarrow>
                 find_one (photos_col (write_photo_B env u tg ds t1 f)) [(''photo_id'', p)] =
                 find_one (photos_col t1) [(''photo_id'', p)]) \<and>
            users_col (write_photo_B env u tg ds t1 f) = users_col t1)"
proof -
  have c1: "ok_file name \<longleftrightarrow>
        (\<exists>stem ext. name = stem @ ''.'' @ ext \<and> CHR ''.'' \<notin> set ext \<and> lower ext \<in> ALLOWED_EXT)"
    by (rule ok_file_iff)
  have c2: "ok_file_B name = ok_file name"
    by (rule ok_file_B_eq)
  have c3: "upload_A env POST (Some u) files tags desc s =
              (Inr (Redirect ''upload'' (Some NoFilesSelected)), s) \<and>
            upload_B env POST (Some u) files tags desc t =
              (Inr (Redirect ''upload'' (Some NoFilesSelected)), t)"
    if "files = [] \<or> filename (hd files) = []"
    using that by (cases files) (simp_all add: upload_A_def upload_B_def)
  have c4: "upload_A env POST (Some u) files tags desc s =
              (Inr (Redirect ''gallery'' (Some (Uploaded (accepted files)))),
               foldl (write_photo_A env u (strip (form_get tags)) (strip (form_get desc))) s
                 (filter (\<lambda>f. ok_file (filename f)) files)) \<and>
            upload_B env POST (Some u) files tags desc t =
              (Inr (Redirect ''gallery'' (Some (Uploaded (accepted files)))),
               foldl (write_photo_B env u (strip (form_get tags)) (strip (form_get desc))) t
                 (filter (\<lambda>f. ok_file (filename f)) files))"
    if f: "files \<noteq> [] \<and> filename (hd files) \<noteq> []"
  proof -
    have a: "upload_files_A env u (strip (form_get tags)) (strip (form_get desc)) files 0 s =
        (Inr (0 + accepted files),
         foldl (write_photo_A env u (strip (form_get tags)) (strip (form_get desc))) s
           (filter (\<lambda>f. ok_file (filename f)) files))"
      using assms(1) by (rule upload_files_A_run)
    have b: "upload_files_B env u (strip (form_get tags)) (strip (form_get desc)) files 0 t =
        (Inr (0 + accepted files),
         foldl (write_photo_B env u (strip (form_get tags)) (strip (form_get desc))) t
           (filter (\<lambda>f. ok_file (filename f)) files))"
      using assms(2,3) by (rule upload_files_B_run)
    show ?thesis
      using f a b
      by (cases files)
         (simp_all add: upload_A_def upload_B_def del: upload_files_A.simps upload_files_B.simps)
  qed
  have c5: "trace (foldl (write_photo_A env u tg ds) s (filter (\<lambda>f. ok_file (filename f)) files)) =
           trace s @ upload_events env u (tick s) files"
    using assms(1) by (rule upload_trace_A)
  have c6: "trace (foldl (write_photo_B env u tg ds) t (filter (\<lambda>f. ok_file (filename f)) files)) =
           trace t @ upload_events env u (tick t) files"
    by (rule upload_trace_B)
  have c7: "snd (upload_A env POST (Some u) files tags desc s) = s \<and>
            snd (upload_B env POST (Some u) files tags desc t) = t"
    if "list_all (\<lambda>f. \<not> ok_file (filename f)) files"
    using upload_none [OF that] by simp
  have c8: "bucket (write_photo_A env u tg ds s1 f) (blob_key env u (tick s1) f) = Some (stream f) \<and>
            (\<forall>k. k \<noteq> blob_key env u (tick s1) f \<longrightarrow>
                 bucket (write_photo_A env u tg ds s1 f) k = bucket s1 k) \<and>
            get_item (photos_tbl (write_photo_A env u tg ds s1 f)) (uuid4 env (tick s1)) =
              Some (new_photo env u tg ds (tick s1) f) \<and>
            (\<forall>p. p \<noteq> uuid4 env (tick s1) \<longrightarrow>
                 get_item (photos_tbl (write_photo_A env u tg ds s1 f)) p = get_item (photos_tbl s1) p) \<and>
            users_tbl (write_photo_A env u tg ds s1 f) = users_tbl s1"
    if "tables_ok s1"
    using write_photo_A_effect [OF that, where env = env and u = u and tags = tg and desc = ds
        and f = f] by simp
  have c9: "bucket (write_photo_B env u tg ds t1 f) (blob_key env u (tick t1) f) = Some (stream f) \<and>
            (\<forall>k. k \<noteq> blob_key env u (tick t1) f \<longrightarrow>
                 bucket (write_photo_B env u tg ds t1 f) k = bucket t1 k) \<and>
            find_one (photos_col (write_photo_B env u tg ds t1 f)) [(''photo_id'', uuid4 env (tick t1))] =
              Some (new_photo env u tg ds (tick t1) f) \<and>
            (\<forall>p. p \<noteq> uuid4 env (tick t1) \<longrightarrow>
                 find_one (photos_col (write_photo_B env u tg ds t1 f)) [(''photo_id'', p)] =
                 find_one (photos_col t1) [(''photo_id'', p)]) \<and>
            users_col (write_photo_B env u tg ds t1 f) = users_col t1"
    if "find (attr_eq ''photo_id'' (uuid4 env (tick t1))) (photos_col t1) = None"
    using write_photo_B_effect [where env = env and u = u and tags = tg and desc = ds and t = t1
        and f = f]
      write_photo_B_found [OF that, where u = u and tags = tg and desc = ds and f = f]
    by simp
  show ?thesis
    using c1 c2 c3 c4 c5 c6 c7 c8 c9 by blast
qed


lemmas upload_eval =
  upload_A_def upload_B_def Let_def ok_file_def ok_file_B_def rsplit_dot_def lower_def
  lower_char_def capital_letters_def small_letters_def ALLOWED_EXT_def ALLOWED_EXT_B_def
  upload_fileobj_def log_def put_item_def get_item_def insert_one_def find_one_def matches_def
  attr_eq_def photo_item_def form_get_def strip_def accepted_def write_photo_A_def
  write_photo_B_def new_photo_def blob_key_def

theorem upload_accepts_by_extension_witness:
  "tables_ok example_stateA \<and>
   accepted example_files = 2 \<and>
   fst (upload_A example_env POST (Some ''alice'') example_files None None example_stateA) =
     Inr (Redirect ''gallery'' (Some (Uploaded 2))) \<and>
   bucket (snd (upload_A example_env POST (Some ''alice'') example_files None None example_stateA))
     ''photos/alice/id_cat.png'' = Some ''<png>'' \<and>
   bucket (snd (upload_A example_env POST (Some ''alice'') example_files None None example_stateA))
     ''photos/alice/id+_Dog.JPG'' = Some ''<jpg>'' \<and>
   get_item (photos_tbl (snd (upload_A example_env POST (Some ''alice'') example_files None None
     example_stateA))) ''id+'' = Some (new_photo example_env ''alice'' [] [] 1 (example_files ! 2)) \<and>
   length (rows (photos_tbl (snd (upload_A example_env POST (Some ''alice'') example_files None None
     example_stateA)))) = 4 \<and>
   trace (snd (upload_A example_env POST (Some ''alice'') example_files None None example_stateA)) =
     [S3Put ''photos/alice/id_cat.png'', DbPut ''photos'' ''id'',
      S3Put ''photos/alice/id+_Dog.JPG'', DbPut ''photos'' ''id+''] \<and>
   fst (upload_B example_env POST (Some ''alice'') example_files None None example_stateB) =
     Inr (Redirect ''gallery'' (Some (Uploaded 2))) \<and>
   bucket (snd (upload_B example_env POST (Some ''alice'') example_files None None example_stateB))
     ''photos/alice/id_cat.png'' = Some ''<png>'' \<and>
   find_one (photos_col (snd (upload_B example_env POST (Some ''alice'') example_files None None
     example_stateB))) [(''photo_id'', ''id+'')] =
     Some (new_photo example_env ''alice'' [] [] 1 (example_files ! 2)) \<and>
   length (photos_col (snd (upload_B example_env POST (Some ''alice'') example_files None None
     example_stateB))) = 4 \<and>
   trace (snd (upload_B example_env POST (Some ''alice'') example_files None None example_stateB)) =
     [S3Put ''photos/alice/id_cat.png'', DbPut ''photos'' ''id'',
      S3Put ''photos/alice/id+_Dog.JPG'', DbPut ''photos'' ''id+'']"
proof -
  have h1: "tables_ok example_stateA"
    by (simp add: tables_ok_def example_stateA_def example_data)
  have h2: "inj (uuid4 example_env)"
    by (auto simp: inj_def example_env_def dest: arg_cong [where f = length])
  have h3: "\<forall>n\<ge>tick example_stateB.
      find (attr_eq ''photo_id'' (uuid4 example_env n)) (photos_col example_stateB) = None"
    by (simp add: example_stateB_def example_env_def attr_eq_def example_data)
  have f: "example_files \<noteq> [] \<and> filename (hd example_files) \<noteq> []"
    by (simp add: example_files_def)
  have a: "accepted example_files = 2"
    by (simp add: accepted_def example_files_def ok_file_def rsplit_dot_def lower_def
        lower_char_def capital_letters_def small_letters_def ALLOWED_EXT_def)
  have ok: "filter (\<lambda>f. ok_file (filename f)) example_files = [example_files ! 0, example_files ! 2]"
    by (simp add: example_files_def ok_file_def rsplit_dot_def lower_def
        lower_char_def capital_letters_def small_letters_def ALLOWED_EXT_def)
  note t = upload_accepts_by_extension [OF h1 h2 h3, where files = example_files
      and u = "''alice''" and tags = None and desc = None and name = "''cat.png''"]
  from t f have ua: "upload_A example_env POST (Some ''alice'') example_files None None
        example_stateA =
      (Inr (Redirect ''gallery'' (Some (Uploaded (accepted example_files)))),
       foldl (write_photo_A example_env ''alice'' (strip (form_get None)) (strip (form_get None)))
         example_stateA (filter (\<lambda>f. ok_file (filename f)) example_files))"
    by blast
  from t f have ub: "upload_B example_env POST (Some ''alice'') example_files None None
        example_stateB =
      (Inr (Redirect ''gallery'' (Some (Uploaded (accepted example_files)))),
       foldl (write_photo_B example_env ''alice'' (strip (form_get None)) (strip (form_get None)))
         example_stateB (filter (\<lambda>f. ok_file (filename f)) example_files))"
    by blast
  have sa: "foldl (write_photo_A example_env ''alice'' (strip (form_get None)) (strip (form_get None)))
         example_stateA [example_files ! 0, example_files ! 2] =
       \<lparr>bucket = example_bucket(''photos/alice/id_cat.png'' \<mapsto> ''<png>'',
                                 ''photos/alice/id+_Dog.JPG'' \<mapsto> ''<jpg>''),
        trace = [S3Put ''photos/alice/id_cat.png'', DbPut ''photos'' ''id'',
                 S3Put ''photos/alice/id+_Dog.JPG'', DbPut ''photos'' ''id+''],
        tick = 2,
        users_tbl = example_users_tbl,
        photos_tbl = example_photos_tbl\<lparr>rows :=
          [new_photo example_env ''alice'' [] [] 1 (example_files ! 2),
           new_photo example_env ''alice'' [] [] 0 (example_files ! 0),
           example_cat, example_dog]\<rparr>\<rparr>"
    by (simp add: write_photo_A_def put_item_def get_item_def attr_eq_def new_photo_def
        blob_key_def photo_item_def form_get_def strip_def example_files_def example_stateA_def
        example_env_def example_data)
  have sb: "foldl (write_photo_B example_env ''alice'' (strip (form_get None)) (strip (form_get None)))
         example_stateB [example_files ! 0, example_files ! 2] =
       \<lparr>bucket = example_bucket(''photos/alice/id_cat.png'' \<mapsto> ''<png>'',
                                 ''photos/alice/id+_Dog.JPG'' \<mapsto> ''<jpg>''),
        trace = [S3Put ''photos/alice/id_cat.png'', DbPut ''photos'' ''id'',
                 S3Put ''photos/alice/id+_Dog.JPG'', DbPut ''photos'' ''id+''],
        tick = 2,
        users_col = [example_alice, example_bob],
        photos_col = [example_cat, example_dog,
           new_photo example_env ''alice'' [] [] 0 (example_files ! 0),
           new_photo example_env ''alice'' [] [] 1 (example_files ! 2)]\<rparr>"
    by (simp add: write_photo_B_def new_photo_def blob_key_def photo_item_def form_get_def
        strip_def example_files_def example_stateB_def example_env_def)
  have ga: "get_item (example_photos_tbl\<lparr>rows :=
          [new_photo example_env ''alice'' [] [] 1 (example_files ! 2),
           new_photo example_env ''alice'' [] [] 0 (example_files ! 0),
           example_cat, example_dog]\<rparr>) ''id+'' =
        Some (new_photo example_env ''alice'' [] [] 1 (example_files ! 2))"
    by (simp add: get_item_def attr_eq_def new_photo_def photo_item_def example_env_def
        example_photos_tbl_def)
  have gb: "find_one [example_cat, example_dog,
           new_photo example_env ''alice'' [] [] 0 (example_files ! 0),
           new_photo example_env ''alice'' [] [] 1 (example_files ! 2)] [(''photo_id'', ''id+'')] =
        Some (new_photo example_env ''alice'' [] [] 1 (example_files ! 2))"
    by (simp add: find_one_def matches_def new_photo_def photo_item_def example_env_def
        example_data)
  have ra: "upload_A example_env POST (Some ''alice'') example_files None None example_stateA =
      (Inr (Redirect ''gallery'' (Some (Uploaded 2))),
       \<lparr>bucket = example_bucket(''photos/alice/id_cat.png'' \<mapsto> ''<png>'',
                                 ''photos/alice/id+_Dog.JPG'' \<mapsto> ''<jpg>''),
        trace = [S3Put ''photos/alice/id_cat.png'', DbPut ''photos'' ''id'',
                 S3Put ''photos/alice/id+_Dog.JPG'', DbPut ''photos'' ''id+''],
        tick = 2,
        users_tbl = example_users_tbl,
        photos_tbl = example_photos_tbl\<lparr>rows :=
          [new_photo example_env ''alice'' [] [] 1 (example_files ! 2),
           new_photo example_env ''alice'' [] [] 0 (example_files ! 0),
           example_cat, example_dog]\<rparr>\<rparr>)"
    using ua unfolding ok a sa .
  have rb: "upload_B example_env POST (Some ''alice'') example_files None None example_stateB =
      (Inr (Redirect ''gallery'' (Some (Uploaded 2))),
       \<lparr>bucket = example_bucket(''photos/alice/id_cat.png'' \<mapsto> ''<png>'',
                                 ''photos/alice/id+_Dog.JPG'' \<mapsto> ''<jpg>''),
        trace = [S3Put ''photos/alice/id_cat.png'', DbPut ''photos'' ''id'',
                 S3Put ''photos/alice/id+_Dog.JPG'', DbPut ''photos'' ''id+''],
        tick = 2,
        users_col = [example_alice, example_bob],
        photos_col = [example_cat, example_dog,
           new_photo example_env ''alice'' [] [] 0 (example_files ! 0),
           new_photo example_env ''alice'' [] [] 1 (example_files ! 2)]\<rparr>)"
    using ub unfolding ok a sb .
  show ?thesis
    using h1 a ga gb by (simp add: ra rb)
qed

text \<open>
  The claim as the specification states it fails at a submission whose first file has an
  empty name: the second file's name passes the check, and nothing is written for it.
\<close>

theorem upload_empty_first_counterexample:
  "ok_file (filename (example_files_empty_first ! 1)) \<and>
   upload_A example_env POST (Some ''alice'') example_files_empty_first None None example_stateA =
     (Inr (Redirect ''upload'' (Some NoFilesSelected)), example_stateA) \<and>
   upload_B example_env POST (Some ''alice'') example_files_empty_first None None example_stateB =
     (Inr (Redirect ''upload'' (Some NoFilesSelected)), example_stateB)"
  by (simp add: upload_eval example_files_empty_first_def)

end
